theory Spec2Isabelle
  imports Main
begin

section \<open>Data model (src/types/agent.ts)\<close>

text \<open>
  The task kind is the string union of \<^verbatim>\<open>AgentTask.type\<close>; the two status unions
  are those of \<^verbatim>\<open>AgentResult.status\<close> and \<^verbatim>\<open>Agent.status\<close>.
\<close>

datatype task_type = CodeEdit | Search | Git | Analyze | Custom

datatype result_status = Success | Failure | Partial

datatype agent_status = Idle | Busy | ErrorStatus

text \<open>
  A JavaScript \<^verbatim>\<open>Error\<close> object, reduced to its \<^verbatim>\<open>message\<close>. The functions of the
  sections up to \<^verbatim>\<open>executeParallel\<close> take every value thrown to be such an object, as the
  casts \<^verbatim>\<open>(error as Error).message\<close> of \<^verbatim>\<open>agent.ts\<close> do; the section on rejections with
  any value drops this.
\<close>

datatype js_error = Error string

fun message :: "js_error \<Rightarrow> string" where
  "message (Error m) = m"

text \<open>
  The \<^verbatim>\<open>output: any\<close> of a result. \<^verbatim>\<open>agent.ts\<close> produces three shapes: the value
  returned by \<^verbatim>\<open>JSON.parse\<close>, the object \<^verbatim>\<open>{ raw: content }\<close>, and \<^verbatim>\<open>null\<close>.
\<close>

datatype 'j task_output = Parsed 'j | Raw string | Null

record 'i AgentTask =
  task_id :: string
  task_type :: task_type
  description :: string
  input :: 'i
  priority :: int
  dependencies :: "string list option"
  task_timeout :: "int option"
  retryOnFailure :: "bool option"

record metrics =
  duration :: int
  tokensUsed :: "int option"
  filesModified :: "int option"

record 'j AgentResult =
  taskId :: string
  status :: result_status
  task_output :: "'j task_output"
  error :: "string option"
  metrics :: "metrics option"

record 'i Agent =
  agent_id :: string
  name :: string
  agent_status :: agent_status
  currentTask :: "'i AgentTask option"
  capabilities :: "string list"

text \<open>The numbers of the configuration are whole: milliseconds and counts.\<close>

record AgentConfig =
  maxConcurrent :: int
  timeout :: int
  retryAttempts :: int
  autoScale :: "bool option"

section \<open>The environment of the orchestrator\<close>

text \<open>
  Everything \<^verbatim>\<open>agent.ts\<close> calls but does not define is a parameter:
  \<^item> \<open>chat\<close>: \<^verbatim>\<open>aiProvider.chat\<close>. The provider is an external, stateful service, so
    the reply depends on the number of calls made before; it takes the system and the
    user prompt and returns the time the call took (in ms) and either the message of the
    error it threw (\<open>Inl\<close>) or \<^verbatim>\<open>response.content\<close> (\<open>Inr\<close>).
  \<^item> \<open>json_parse\<close>: \<^verbatim>\<open>JSON.parse\<close>; \<open>None\<close> when it throws a SyntaxError.
  \<^item> \<open>json_stringify\<close>: \<^verbatim>\<open>JSON.stringify(x, null, 2)\<close>; \<open>Inl\<close> the message when it
    throws (a circular input).
  \<^item> \<open>timer_lag\<close>: how late (in ms) a timer armed at a given instant fires;
    \<^verbatim>\<open>setTimeout\<close> guarantees only a minimum delay.
  \<^item> \<open>interfere\<close>: what the other asynchronous activities of the process do to the
    result store while this one is suspended at an \<^verbatim>\<open>await\<close>, as a function of the
    instant at which it resumes. JavaScript runs one activity at a time, so the store
    changes under a running function only at its suspension points; the model has one
    at every wait for a timer and at every call of the provider.
  Every call of the provider settles: it resolves or rejects after a finite time.
\<close>

type_synonym 'j store = "string \<rightharpoonup> 'j AgentResult"

record ('i, 'j) env =
  chat :: "nat \<Rightarrow> string \<Rightarrow> string \<Rightarrow> nat \<times> (string + string)"
  json_parse :: "string \<Rightarrow> 'j option"
  json_stringify :: "'i \<Rightarrow> string + string"
  timer_lag :: "int \<Rightarrow> nat"
  interfere :: "int \<Rightarrow> 'j store \<Rightarrow> 'j store"

section \<open>The state of an orchestrator\<close>

text \<open>
  \<open>agents\<close> is the \<^verbatim>\<open>Map<string, Agent>\<close>: its values are references to agent
  objects, so the map holds addresses, \<open>heap\<close> holds the objects and \<open>nextAddr\<close> is the
  address of the next object to be created. \<open>taskResults\<close> is
  the \<^verbatim>\<open>Map<string, AgentResult>\<close>. \<open>now\<close> is the clock read by \<^verbatim>\<open>Date.now()\<close>.
  Three fields only observe the run: \<open>chatCalls\<close> counts the calls of
  \<^verbatim>\<open>aiProvider.chat\<close>, \<open>bodyCalls\<close> the calls of \<^verbatim>\<open>processTask\<close> (the task body), and
  \<open>sleeps\<close> lists the delays passed to \<^verbatim>\<open>setTimeout\<close>, oldest first.
\<close>

record ('i, 'j) state =
  agents :: "string \<rightharpoonup> nat"
  heap :: "nat \<rightharpoonup> 'i Agent"
  nextAddr :: nat
  taskResults :: "'j store"
  now :: int
  chatCalls :: nat
  bodyCalls :: nat
  sleeps :: "int list"

text \<open>The state after the constructor: two empty maps.\<close>

definition init :: "int \<Rightarrow> ('i, 'j) state" where
  "init t = \<lparr>agents = Map.empty, heap = Map.empty, nextAddr = 0, taskResults = Map.empty,
     now = t, chatCalls = 0, bodyCalls = 0, sleeps = []\<rparr>"

text \<open>\<^verbatim>\<open>await new Promise((resolve) => setTimeout(resolve, ms))\<close>\<close>

definition sleep :: "('i, 'j) env \<Rightarrow> int \<Rightarrow> ('i, 'j) state \<Rightarrow> ('i, 'j) state" where
  "sleep E ms s =
     (let t = now s + ms + int (timer_lag E (now s))
      in s\<lparr>taskResults := interfere E t (taskResults s), now := t, sleeps := sleeps s @ [ms]\<rparr>)"

section \<open>Task body: processTask and its helpers\<close>

fun getSystemPrompt :: "task_type \<Rightarrow> string" where
  "getSystemPrompt CodeEdit =
     ''You are a code editing agent. Analyze the request and provide precise file edits in JSON format.''"
| "getSystemPrompt Search =
     ''You are a code search agent. Find relevant code patterns and return structured results.''"
| "getSystemPrompt Git =
     ''You are a git operations agent. Execute git commands and manage repository operations.''"
| "getSystemPrompt Analyze =
     ''You are a code analysis agent. Review code quality, patterns, and provide insights.''"
| "getSystemPrompt Custom =
     ''You are a general-purpose agent. Follow the task instructions carefully.''"

definition getUserPrompt :: "('i, 'j) env \<Rightarrow> 'i AgentTask \<Rightarrow> js_error + string" where
  "getUserPrompt E task =
     (case json_stringify E (input task) of
        Inl m \<Rightarrow> Inl (Error m)
      | Inr js \<Rightarrow> Inr (''Task: '' @ description task @ [CHR 0x0A, CHR 0x0A] @ ''Input:''
                       @ [CHR 0x0A] @ js))"

text \<open>The \<^verbatim>\<open>try { return JSON.parse(content) } catch { return { raw: content } }\<close>.\<close>

definition parseTaskResult :: "('i, 'j) env \<Rightarrow> task_type \<Rightarrow> string \<Rightarrow> 'j task_output" where
  "parseTaskResult E taskType content =
     (case json_parse E content of Some j \<Rightarrow> Parsed j | None \<Rightarrow> Raw content)"

definition processTask ::
  "('i, 'j) env \<Rightarrow> 'i AgentTask \<Rightarrow> ('i, 'j) state \<Rightarrow> (js_error + 'j task_output) \<times> ('i, 'j) state" where
  "processTask E task s =
     (let s0 = s\<lparr>bodyCalls := Suc (bodyCalls s)\<rparr>;
          systemPrompt = getSystemPrompt (task_type task)
      in case getUserPrompt E task of
           Inl e \<Rightarrow> (Inl e, s0)
         | Inr userPrompt \<Rightarrow>
             (let (lat, reply) = chat E (chatCalls s0) systemPrompt userPrompt;
                  t = now s0 + int lat;
                  s1 = s0\<lparr>taskResults := interfere E t (taskResults s0), now := t,
                          chatCalls := Suc (chatCalls s0)\<rparr>
              in case reply of
                   Inl m \<Rightarrow> (Inl (Error m), s1)
                 | Inr content \<Rightarrow> (Inr (parseTaskResult E (task_type task) content), s1)))"

section \<open>Dependency wait\<close>

definition allComplete :: "'j store \<Rightarrow> string list \<Rightarrow> bool" where
  "allComplete results deps =
     list_all (\<lambda>depId. case results depId of None \<Rightarrow> False | Some r \<Rightarrow> status r = Success) deps"

text \<open>
  The \<^verbatim>\<open>while\<close> loop of \<^verbatim>\<open>waitForDependencies\<close>, with \<open>maxWaitTime\<close> and \<open>startTime\<close>
  as the loop's constants. Every pass that does not return sleeps at least 100 ms, so
  the remaining window shrinks.
\<close>

function wait_loop ::
  "('i, 'j) env \<Rightarrow> int \<Rightarrow> int \<Rightarrow> string list \<Rightarrow> ('i, 'j) state
     \<Rightarrow> (js_error + unit) \<times> ('i, 'j) state" where
  "wait_loop E maxWaitTime startTime deps s =
     (if now s - startTime < maxWaitTime then
        (if allComplete (taskResults s) deps then (Inr (), s)
         else wait_loop E maxWaitTime startTime deps (sleep E 100 s))
      else (Inl (Error ''Dependency timeout: Some dependencies did not complete in time''), s))"
  by pat_completeness auto
termination
  by (relation "measure (\<lambda>(E, maxWaitTime, startTime, deps, s). nat (maxWaitTime - (now s - startTime)))")
     (auto simp: sleep_def Let_def)

declare wait_loop.simps [simp del]

definition waitForDependencies ::
  "('i, 'j) env \<Rightarrow> AgentConfig \<Rightarrow> string list \<Rightarrow> ('i, 'j) state
     \<Rightarrow> (js_error + unit) \<times> ('i, 'j) state" where
  "waitForDependencies E cfg deps s = wait_loop E (timeout cfg) (now s) deps s"

section \<open>Retry\<close>

definition failure :: "'i AgentTask \<Rightarrow> string \<Rightarrow> int \<Rightarrow> 'j AgentResult" where
  "failure task msg d =
     \<lparr>taskId = task_id task, status = Failure, task_output = Null, error = Some msg,
      metrics = Some \<lparr>duration = d, tokensUsed = None, filesModified = None\<rparr>\<rparr>"

definition success :: "'i AgentTask \<Rightarrow> 'j task_output \<Rightarrow> int \<Rightarrow> 'j AgentResult" where
  "success task out d =
     \<lparr>taskId = task_id task, status = Success, task_output = out, error = None,
      metrics = Some \<lparr>duration = d, tokensUsed = None, filesModified = None\<rparr>\<rparr>"

text \<open>The \<^verbatim>\<open>for\<close> loop of \<^verbatim>\<open>retryTask\<close> from a given value of \<open>attempt\<close>.\<close>

function retry_loop ::
  "('i, 'j) env \<Rightarrow> AgentConfig \<Rightarrow> 'i AgentTask \<Rightarrow> js_error \<Rightarrow> int \<Rightarrow> ('i, 'j) state
     \<Rightarrow> (js_error + 'j AgentResult) \<times> ('i, 'j) state" where
  "retry_loop E cfg task err attempt s =
     (if attempt \<le> retryAttempts cfg then
        (let s1 = sleep E (1000 * attempt) s
         in case processTask E task s1 of
              (Inr result, s2) \<Rightarrow> (Inr (success task result 0), s2)
            | (Inl retryError, s2) \<Rightarrow>
                (if attempt = retryAttempts cfg
                 then (Inr (failure task (message retryError) 0), s2)
                 else retry_loop E cfg task err (attempt + 1) s2))
      else (Inr (failure task (message err) 0), s))"
  by pat_completeness auto
termination
  by (relation "measure (\<lambda>(E, cfg, task, err, attempt, s). nat (retryAttempts cfg + 1 - attempt))")
     auto

declare retry_loop.simps [simp del]

definition retryTask ::
  "('i, 'j) env \<Rightarrow> AgentConfig \<Rightarrow> 'i AgentTask \<Rightarrow> js_error \<Rightarrow> ('i, 'j) state
     \<Rightarrow> (js_error + 'j AgentResult) \<times> ('i, 'j) state" where
  "retryTask E cfg task err s = retry_loop E cfg task err 1 s"

section \<open>executeTask\<close>

text \<open>
  The \<^verbatim>\<open>if (task.dependencies)\<close> of the \<^verbatim>\<open>try\<close> block: an array, also the empty one,
  is truthy; only an absent field skips the wait.
\<close>

definition resolveDependencies ::
  "('i, 'j) env \<Rightarrow> AgentConfig \<Rightarrow> 'i AgentTask \<Rightarrow> ('i, 'j) state
     \<Rightarrow> (js_error + unit) \<times> ('i, 'j) state" where
  "resolveDependencies E cfg task s =
     (case dependencies task of
        None \<Rightarrow> (Inr (), s)
      | Some deps \<Rightarrow> waitForDependencies E cfg deps s)"

text \<open>The \<^verbatim>\<open>catch (error)\<close> block of \<^verbatim>\<open>executeTask\<close>.\<close>

definition executeTask_catch ::
  "('i, 'j) env \<Rightarrow> AgentConfig \<Rightarrow> 'i AgentTask \<Rightarrow> int \<Rightarrow> js_error \<Rightarrow> ('i, 'j) state
     \<Rightarrow> (js_error + 'j AgentResult) \<times> ('i, 'j) state" where
  "executeTask_catch E cfg task startTime err s =
     (let dur = now s - startTime
      in if retryOnFailure task = Some True \<and> retryAttempts cfg > 0
         then retryTask E cfg task err s
         else (Inr (failure task (message err) dur), s))"

definition executeTask ::
  "('i, 'j) env \<Rightarrow> AgentConfig \<Rightarrow> 'i AgentTask \<Rightarrow> ('i, 'j) state
     \<Rightarrow> (js_error + 'j AgentResult) \<times> ('i, 'j) state" where
  "executeTask E cfg task s =
     (let startTime = now s
      in case resolveDependencies E cfg task s of
           (Inl err, s1) \<Rightarrow> executeTask_catch E cfg task startTime err s1
         | (Inr _, s1) \<Rightarrow>
             (case processTask E task s1 of
                (Inl err, s2) \<Rightarrow> executeTask_catch E cfg task startTime err s2
              | (Inr result, s2) \<Rightarrow> (Inr (success task result (now s2 - startTime)), s2)))"

definition getTaskResult :: "('i, 'j) state \<Rightarrow> string \<Rightarrow> 'j AgentResult option" where
  "getTaskResult s tid = taskResults s tid"

section \<open>executeParallel\<close>

text \<open>
  \<^verbatim>\<open>taskQueue.add(fn)\<close> of p-queue, created without a timeout: the promise settles as
  \<open>fn\<close> does. Its value is typed \<^verbatim>\<open>T | void\<close>, hence the \<open>option\<close>.
\<close>

definition queue_add ::
  "(('i, 'j) state \<Rightarrow> (js_error + 'a) \<times> ('i, 'j) state) \<Rightarrow> ('i, 'j) state
     \<Rightarrow> (js_error + 'a option) \<times> ('i, 'j) state" where
  "queue_add fn s = (case fn s of (Inl e, s') \<Rightarrow> (Inl e, s') | (Inr v, s') \<Rightarrow> (Inr (Some v), s'))"

text \<open>
  Which of the queued executions the event loop completes first is not fixed by the
  code. \<open>finish i\<close> ranks the completion of the execution queued at position \<open>i\<close>;
  executions of equal rank complete in the order of submission. The model runs the
  executions one at a time, as a whole, in the order of completion; what other
  activities do meanwhile is the environment's \<open>interfere\<close>. With \<^verbatim>\<open>maxConcurrent: 1\<close>
  and a constant \<open>finish\<close> this is the order in which the queue runs them. With a
  larger bound the code starts the executions in the order of submission and
  interleaves them at their suspension points (the section on interleaved executions),
  so there the contents of the outcomes can differ from the ones computed here.
\<close>

definition completion_order :: "(nat \<Rightarrow> nat) \<Rightarrow> 'a list \<Rightarrow> (nat \<times> 'a) list" where
  "completion_order finish tasks = sort_key (\<lambda>(i, task). finish i) (enumerate 0 tasks)"

fun run_queue ::
  "('i, 'j) env \<Rightarrow> AgentConfig \<Rightarrow> (nat \<times> 'i AgentTask) list \<Rightarrow> ('i, 'j) state
     \<Rightarrow> (nat \<times> (js_error + 'j AgentResult option)) list \<times> ('i, 'j) state" where
  "run_queue E cfg [] s = ([], s)"
| "run_queue E cfg ((i, task) # queue) s =
     (let (r, s1) = queue_add (executeTask E cfg task) s;
          (rs, s2) = run_queue E cfg queue s1
      in ((i, r) # rs, s2))"

text \<open>
  \<^verbatim>\<open>Promise.all\<close> over promises settled in the given order, each tagged with its
  position in the array: it rejects with the first rejection, otherwise it resolves to
  the values by position.
\<close>

fun first_rejection :: "(nat \<times> (js_error + 'a)) list \<Rightarrow> js_error option" where
  "first_rejection [] = None"
| "first_rejection ((i, Inl e) # settled) = Some e"
| "first_rejection ((i, Inr v) # settled) = first_rejection settled"

fun fulfilled :: "(nat \<times> (js_error + 'a)) list \<Rightarrow> 'a list" where
  "fulfilled [] = []"
| "fulfilled ((i, Inl e) # settled) = fulfilled settled"
| "fulfilled ((i, Inr v) # settled) = v # fulfilled settled"

definition promise_all :: "(nat \<times> (js_error + 'a)) list \<Rightarrow> js_error + 'a list" where
  "promise_all settled =
     (case first_rejection settled of
        Some e \<Rightarrow> Inl e
      | None \<Rightarrow> Inr (fulfilled (sort_key fst settled)))"

definition executeParallel ::
  "('i, 'j) env \<Rightarrow> AgentConfig \<Rightarrow> (nat \<Rightarrow> nat) \<Rightarrow> 'i AgentTask list \<Rightarrow> ('i, 'j) state
     \<Rightarrow> (js_error + 'j AgentResult list) \<times> ('i, 'j) state" where
  "executeParallel E cfg finish tasks s =
     (let (promises, s') = run_queue E cfg (completion_order finish tasks) s
      in case promise_all promises of
           Inl e \<Rightarrow> (Inl e, s')
         | Inr results \<Rightarrow> (Inr (List.map_filter (\<lambda>result. result) results), s'))"

section \<open>Rejections with any value\<close>

text \<open>
  JavaScript can throw any value, and a promise can reject with any value. The functions
  above take every thrown value to be an \<^verbatim>\<open>Error\<close> object; the functions of this section
  are the same functions of \<^verbatim>\<open>agent.ts\<close> for a provider that rejects with any value.
  What the code does with a caught value is to read its property \<^verbatim>\<open>message\<close>
  (lines 83, 151 and 162), so a value is one of: a value whose \<^verbatim>\<open>message\<close> is a string
  (an \<^verbatim>\<open>Error\<close> object); another value that is neither \<^verbatim>\<open>null\<close> nor \<^verbatim>\<open>undefined\<close>, whose
  \<^verbatim>\<open>message\<close> reads as \<^verbatim>\<open>undefined\<close>; \<^verbatim>\<open>null\<close>; \<^verbatim>\<open>undefined\<close>. A value whose \<^verbatim>\<open>message\<close>
  is neither a string nor \<^verbatim>\<open>undefined\<close> is left out: the field \<^verbatim>\<open>error\<close> of a result is
  typed as an optional string.
\<close>

datatype js_value = ErrorObject string | OtherValue | NullValue | UndefinedValue

text \<open>
  \<^verbatim>\<open>(error as Error).message\<close>: the cast does nothing at run time. Reading a property of
  \<^verbatim>\<open>null\<close> or \<^verbatim>\<open>undefined\<close> throws a TypeError (the message is the one of V8).
\<close>

fun read_message :: "js_value \<Rightarrow> js_error + string option" where
  "read_message (ErrorObject m) = Inr (Some m)"
| "read_message OtherValue = Inr None"
| "read_message NullValue = Inl (Error ''Cannot read properties of null (reading 'message')'')"
| "read_message UndefinedValue = Inl (Error ''Cannot read properties of undefined (reading 'message')'')"

definition failure_with :: "'i AgentTask \<Rightarrow> string option \<Rightarrow> int \<Rightarrow> 'j AgentResult" where
  "failure_with task msg d =
     \<lparr>taskId = task_id task, status = Failure, task_output = Null, error = msg,
      metrics = Some \<lparr>duration = d, tokensUsed = None, filesModified = None\<rparr>\<rparr>"

text \<open>\<^verbatim>\<open>aiProvider.chat\<close> as in the environment, rejecting with any value.\<close>

type_synonym provider = "nat \<Rightarrow> string \<Rightarrow> string \<Rightarrow> nat \<times> (js_value + string)"

definition processTask_any ::
  "('i, 'j) env \<Rightarrow> provider \<Rightarrow> 'i AgentTask \<Rightarrow> ('i, 'j) state
     \<Rightarrow> (js_value + 'j task_output) \<times> ('i, 'j) state" where
  "processTask_any E provider task s =
     (let s0 = s\<lparr>bodyCalls := Suc (bodyCalls s)\<rparr>;
          systemPrompt = getSystemPrompt (task_type task)
      in case getUserPrompt E task of
           Inl e \<Rightarrow> (Inl (ErrorObject (message e)), s0)
         | Inr userPrompt \<Rightarrow>
             (let (lat, reply) = provider (chatCalls s0) systemPrompt userPrompt;
                  t = now s0 + int lat;
                  s1 = s0\<lparr>taskResults := interfere E t (taskResults s0), now := t,
                          chatCalls := Suc (chatCalls s0)\<rparr>
              in case reply of
                   Inl v \<Rightarrow> (Inl v, s1)
                 | Inr content \<Rightarrow> (Inr (parseTaskResult E (task_type task) content), s1)))"

text \<open>
  An object literal with \<^verbatim>\<open>error: (e as Error).message\<close>, at the end of a \<^verbatim>\<open>catch\<close>
  block or of \<^verbatim>\<open>retryTask\<close>: when the read throws, nothing catches the TypeError and
  the function rejects with it.
\<close>

definition failure_from ::
  "'i AgentTask \<Rightarrow> js_value \<Rightarrow> int \<Rightarrow> ('i, 'j) state
     \<Rightarrow> (js_error + 'j AgentResult) \<times> ('i, 'j) state" where
  "failure_from task v d s =
     (case read_message v of
        Inl typeError \<Rightarrow> (Inl typeError, s)
      | Inr msg \<Rightarrow> (Inr (failure_with task msg d), s))"

function retry_loop_any ::
  "('i, 'j) env \<Rightarrow> provider \<Rightarrow> AgentConfig \<Rightarrow> 'i AgentTask \<Rightarrow> js_value \<Rightarrow> int
     \<Rightarrow> ('i, 'j) state \<Rightarrow> (js_error + 'j AgentResult) \<times> ('i, 'j) state" where
  "retry_loop_any E provider cfg task err attempt s =
     (if attempt \<le> retryAttempts cfg then
        (let s1 = sleep E (1000 * attempt) s
         in case processTask_any E provider task s1 of
              (Inr result, s2) \<Rightarrow> (Inr (success task result 0), s2)
            | (Inl retryError, s2) \<Rightarrow>
                (if attempt = retryAttempts cfg
                 then failure_from task retryError 0 s2
                 else retry_loop_any E provider cfg task err (attempt + 1) s2))
      else failure_from task err 0 s)"
  by pat_completeness auto
termination
  by (relation "measure (\<lambda>(E, provider, cfg, task, err, attempt, s).
        nat (retryAttempts cfg + 1 - attempt))") auto

declare retry_loop_any.simps [simp del]

definition retryTask_any ::
  "('i, 'j) env \<Rightarrow> provider \<Rightarrow> AgentConfig \<Rightarrow> 'i AgentTask \<Rightarrow> js_value
     \<Rightarrow> ('i, 'j) state \<Rightarrow> (js_error + 'j AgentResult) \<times> ('i, 'j) state" where
  "retryTask_any E provider cfg task err s = retry_loop_any E provider cfg task err 1 s"

definition executeTask_catch_any ::
  "('i, 'j) env \<Rightarrow> provider \<Rightarrow> AgentConfig \<Rightarrow> 'i AgentTask \<Rightarrow> int \<Rightarrow> js_value
     \<Rightarrow> ('i, 'j) state \<Rightarrow> (js_error + 'j AgentResult) \<times> ('i, 'j) state" where
  "executeTask_catch_any E provider cfg task startTime err s =
     (let dur = now s - startTime
      in if retryOnFailure task = Some True \<and> retryAttempts cfg > 0
         then retryTask_any E provider cfg task err s
         else failure_from task err dur s)"

definition executeTask_any ::
  "('i, 'j) env \<Rightarrow> provider \<Rightarrow> AgentConfig \<Rightarrow> 'i AgentTask \<Rightarrow> ('i, 'j) state
     \<Rightarrow> (js_error + 'j AgentResult) \<times> ('i, 'j) state" where
  "executeTask_any E provider cfg task s =
     (let startTime = now s
      in case resolveDependencies E cfg task s of
           (Inl err, s1) \<Rightarrow>
             executeTask_catch_any E provider cfg task startTime (ErrorObject (message err)) s1
         | (Inr _, s1) \<Rightarrow>
             (case processTask_any E provider task s1 of
                (Inl err, s2) \<Rightarrow> executeTask_catch_any E provider cfg task startTime err s2
              | (Inr result, s2) \<Rightarrow> (Inr (success task result (now s2 - startTime)), s2)))"

fun run_queue_any ::
  "('i, 'j) env \<Rightarrow> provider \<Rightarrow> AgentConfig \<Rightarrow> (nat \<times> 'i AgentTask) list \<Rightarrow> ('i, 'j) state
     \<Rightarrow> (nat \<times> (js_error + 'j AgentResult option)) list \<times> ('i, 'j) state" where
  "run_queue_any E provider cfg [] s = ([], s)"
| "run_queue_any E provider cfg ((i, task) # queue) s =
     (let (r, s1) = queue_add (executeTask_any E provider cfg task) s;
          (rs, s2) = run_queue_any E provider cfg queue s1
      in ((i, r) # rs, s2))"

definition executeParallel_any ::
  "('i, 'j) env \<Rightarrow> provider \<Rightarrow> AgentConfig \<Rightarrow> (nat \<Rightarrow> nat) \<Rightarrow> 'i AgentTask list
     \<Rightarrow> ('i, 'j) state \<Rightarrow> (js_error + 'j AgentResult list) \<times> ('i, 'j) state" where
  "executeParallel_any E provider cfg finish tasks s =
     (let (promises, s') = run_queue_any E provider cfg (completion_order finish tasks) s
      in case promise_all promises of
           Inl e \<Rightarrow> (Inl e, s')
         | Inr results \<Rightarrow> (Inr (List.map_filter (\<lambda>result. result) results), s'))"

text \<open>The provider of an environment, as a provider that rejects with \<^verbatim>\<open>Error\<close> objects.\<close>

definition provider_of :: "('i, 'j) env \<Rightarrow> provider" where
  "provider_of E = (\<lambda>n systemPrompt userPrompt.
     case chat E n systemPrompt userPrompt of
       (lat, Inl m) \<Rightarrow> (lat, Inl (ErrorObject m))
     | (lat, Inr content) \<Rightarrow> (lat, Inr content))"

section \<open>Agent registry: createAgent, assignTask, getStatus, shutdown\<close>

text \<open>Decimal digits of a number, for the template literal of the agent id.\<close>

fun digits :: "nat \<Rightarrow> string" where
  "digits n = (if n < 10 then [''0123456789'' ! n]
               else digits (n div 10) @ [''0123456789'' ! (n mod 10)])"

declare digits.simps [simp del]

definition show_int :: "int \<Rightarrow> string" where
  "show_int i = (if i < 0 then ''-'' @ digits (nat (- i)) else digits (nat i))"

text \<open>
  \<^verbatim>\<open>createAgent\<close> builds a new object, stores a reference to it under its id and returns
  the reference. \<open>rnd\<close> is the text of
  \<^verbatim>\<open>Math.random().toString(36).substr(2, 9)\<close>.
\<close>

definition createAgent ::
  "string \<Rightarrow> string \<Rightarrow> string list \<Rightarrow> ('i, 'j) state \<Rightarrow> nat \<times> ('i, 'j) state" where
  "createAgent rnd nm caps s =
     (let agent = \<lparr>agent_id = ''agent-'' @ show_int (now s) @ ''-'' @ rnd, name = nm,
                    agent_status = Idle, currentTask = None, capabilities = caps\<rparr>;
          a = nextAddr s
      in (a, s\<lparr>agents := (agents s)(agent_id agent \<mapsto> a), heap := (heap s)(a \<mapsto> agent),
               nextAddr := Suc a\<rparr>))"

text \<open>An assignment to fields of the object at an address.\<close>

definition modify :: "nat \<Rightarrow> ('i Agent \<Rightarrow> 'i Agent) \<Rightarrow> (nat \<rightharpoonup> 'i Agent) \<Rightarrow> (nat \<rightharpoonup> 'i Agent)" where
  "modify a f h = (case h a of None \<Rightarrow> h | Some agent \<Rightarrow> h(a \<mapsto> f agent))"

text \<open>
  The two assignments before the \<^verbatim>\<open>try\<close> of \<^verbatim>\<open>assignTask\<close>, and the two of its
  \<^verbatim>\<open>finally\<close>. Neither pair contains an \<^verbatim>\<open>await\<close>, so each runs as one step.
\<close>

definition assign_begin :: "nat \<Rightarrow> 'i AgentTask \<Rightarrow> ('i, 'j) state \<Rightarrow> ('i, 'j) state" where
  "assign_begin a task s =
     s\<lparr>heap := modify a (\<lambda>agent. agent\<lparr>currentTask := Some task, agent_status := Busy\<rparr>) (heap s)\<rparr>"

definition assign_end :: "nat \<Rightarrow> ('i, 'j) state \<Rightarrow> ('i, 'j) state" where
  "assign_end a s =
     s\<lparr>heap := modify a (\<lambda>agent. agent\<lparr>currentTask := None, agent_status := Idle\<rparr>) (heap s)\<rparr>"

definition record_result :: "string \<Rightarrow> 'j AgentResult \<Rightarrow> ('i, 'j) state \<Rightarrow> ('i, 'j) state" where
  "record_result tid result s = s\<lparr>taskResults := (taskResults s)(tid \<mapsto> result)\<rparr>"

definition assignTask ::
  "('i, 'j) env \<Rightarrow> AgentConfig \<Rightarrow> string \<Rightarrow> 'i AgentTask \<Rightarrow> ('i, 'j) state
     \<Rightarrow> (js_error + unit) \<times> ('i, 'j) state" where
  "assignTask E cfg agentId task s =
     (case agents s agentId of
        None \<Rightarrow> (Inl (Error (''Agent '' @ agentId @ '' not found'')), s)
      | Some a \<Rightarrow>
          (case executeTask E cfg task (assign_begin a task s) of
             (Inr result, s2) \<Rightarrow> (Inr (), assign_end a (record_result (task_id task) result s2))
           | (Inl e, s2) \<Rightarrow> (Inl e, assign_end a s2)))"

text \<open>
  \<^verbatim>\<open>new Map(this.agents)\<close>: a new map with the entries of the registry. Its values are
  the same references; \<open>view\<close> reads an agent through a snapshot in a later state.
\<close>

definition getStatus :: "('i, 'j) state \<Rightarrow> (string \<rightharpoonup> nat)" where
  "getStatus s = agents s"

definition view :: "(string \<rightharpoonup> nat) \<Rightarrow> ('i, 'j) state \<Rightarrow> string \<Rightarrow> 'i Agent option" where
  "view snapshot s agentId = (case snapshot agentId of None \<Rightarrow> None | Some a \<Rightarrow> heap s a)"

text \<open>\<^verbatim>\<open>shutdown\<close>, once the queue is idle: both maps are cleared.\<close>

definition shutdown :: "('i, 'j) state \<Rightarrow> ('i, 'j) state" where
  "shutdown s = s\<lparr>agents := Map.empty, taskResults := Map.empty\<rparr>"

section \<open>The registry as a state machine\<close>

text \<open>
  One step of an orchestrator: a call of \<^verbatim>\<open>createAgent\<close>; the assignments with which
  \<^verbatim>\<open>assignTask\<close> starts, for a registered agent; a run of \<^verbatim>\<open>executeTask\<close>; the write
  of an outcome to the result store; the assignments of the \<^verbatim>\<open>finally\<close> block of an
  \<^verbatim>\<open>assignTask\<close>; \<^verbatim>\<open>shutdown\<close>. Assignments to different agents, or to the same one,
  may overlap, so the steps of several \<^verbatim>\<open>assignTask\<close> calls come in any order. The steps
  are the writes of the orchestrator itself: a caller that holds an agent object is
  taken not to assign to its fields.
\<close>

inductive step ::
  "('i, 'j) env \<Rightarrow> AgentConfig \<Rightarrow> ('i, 'j) state \<Rightarrow> ('i, 'j) state \<Rightarrow> bool"
  for E :: "('i, 'j) env" and cfg :: AgentConfig where
  created: "step E cfg s (snd (createAgent rnd nm caps s))"
| assigned: "agents s agentId = Some a \<Longrightarrow> step E cfg s (assign_begin a task s)"
| executed: "step E cfg s (snd (executeTask E cfg task s))"
| recorded: "step E cfg s (record_result tid result s)"
| released: "step E cfg s (assign_end a s)"
| cleared: "step E cfg s (shutdown s)"

inductive steps ::
  "('i, 'j) env \<Rightarrow> AgentConfig \<Rightarrow> ('i, 'j) state \<Rightarrow> ('i, 'j) state \<Rightarrow> bool"
  for E :: "('i, 'j) env" and cfg :: AgentConfig where
  here: "steps E cfg s s"
| after: "steps E cfg s s' \<Longrightarrow> step E cfg s' s'' \<Longrightarrow> steps E cfg s s''"

definition reachable :: "('i, 'j) env \<Rightarrow> AgentConfig \<Rightarrow> ('i, 'j) state \<Rightarrow> bool" where
  "reachable E cfg s \<longleftrightarrow> (\<exists>t. steps E cfg (init t) s)"

section \<open>Interleaved executions\<close>

text \<open>
  An execution of \<^verbatim>\<open>executeTask\<close> runs until its next \<^verbatim>\<open>await\<close> and is suspended
  there while other executions run. The points at which it can be suspended:
  \<^item> \<open>AtPoll\<close>: the timer of the polling loop of \<^verbatim>\<open>waitForDependencies\<close> (line 182);
  \<^item> \<open>AtChat\<close>: the provider's call of the first attempt (line 103, from line 61);
  \<^item> \<open>AtBackoff\<close>: the timer of \<^verbatim>\<open>retryTask\<close> (line 137);
  \<^item> \<open>AtRetryChat\<close>: the provider's call of a re-attempt (line 103, from line 138).
  Each carries the local variables the rest of the execution reads (\<open>startTime\<close>, the
  prerequisite list, the error passed to \<^verbatim>\<open>retryTask\<close>, \<open>attempt\<close>), the instant from
  which it can resume and, for a call of the provider, the reply to come. An execution
  is in its task body exactly at \<open>AtChat\<close> and \<open>AtRetryChat\<close>.
\<close>

datatype 'j point =
    AtPoll int "string list" int
  | AtChat int int "string + string"
  | AtBackoff js_error int int
  | AtRetryChat js_error int int "string + string"
  | Settled "js_error + 'j AgentResult"

fun in_body :: "'j point \<Rightarrow> bool" where
  "in_body (AtChat startTime due reply) = True"
| "in_body (AtRetryChat err attempt due reply) = True"
| "in_body p = False"

fun is_settled :: "'j point \<Rightarrow> bool" where
  "is_settled (Settled r) = True"
| "is_settled p = False"

fun due :: "'j point \<Rightarrow> int option" where
  "due (AtPoll startTime deps t) = Some t"
| "due (AtChat startTime t reply) = Some t"
| "due (AtBackoff err attempt t) = Some t"
| "due (AtRetryChat err attempt t reply) = Some t"
| "due (Settled r) = None"

text \<open>The head of the \<^verbatim>\<open>for\<close> loop of \<^verbatim>\<open>retryTask\<close>, up to the timer.\<close>

definition arm_retry ::
  "('i, 'j) env \<Rightarrow> AgentConfig \<Rightarrow> 'i AgentTask \<Rightarrow> js_error \<Rightarrow> int \<Rightarrow> ('i, 'j) state
     \<Rightarrow> 'j point \<times> ('i, 'j) state" where
  "arm_retry E cfg task err attempt s =
     (if attempt \<le> retryAttempts cfg
      then (AtBackoff err attempt (now s + 1000 * attempt + int (timer_lag E (now s))),
            s\<lparr>sleeps := sleeps s @ [1000 * attempt]\<rparr>)
      else (Settled (Inr (failure task (message err) 0)), s))"

text \<open>The \<^verbatim>\<open>catch\<close> block of \<^verbatim>\<open>executeTask\<close>, up to the first timer of \<^verbatim>\<open>retryTask\<close>.\<close>

definition on_throw ::
  "('i, 'j) env \<Rightarrow> AgentConfig \<Rightarrow> 'i AgentTask \<Rightarrow> int \<Rightarrow> js_error \<Rightarrow> ('i, 'j) state
     \<Rightarrow> 'j point \<times> ('i, 'j) state" where
  "on_throw E cfg task startTime err s =
     (if retryOnFailure task = Some True \<and> retryAttempts cfg > 0
      then arm_retry E cfg task err 1 s
      else (Settled (Inr (failure task (message err) (now s - startTime))), s))"

text \<open>The \<^verbatim>\<open>catch\<close> block inside the loop of \<^verbatim>\<open>retryTask\<close>.\<close>

definition on_retry_throw ::
  "('i, 'j) env \<Rightarrow> AgentConfig \<Rightarrow> 'i AgentTask \<Rightarrow> js_error \<Rightarrow> int \<Rightarrow> js_error
     \<Rightarrow> ('i, 'j) state \<Rightarrow> 'j point \<times> ('i, 'j) state" where
  "on_retry_throw E cfg task err attempt retryError s =
     (if attempt = retryAttempts cfg
      then (Settled (Inr (failure task (message retryError) 0)), s)
      else arm_retry E cfg task err (attempt + 1) s)"

text \<open>\<^verbatim>\<open>processTask\<close> up to its call of the provider.\<close>

definition call_provider ::
  "('i, 'j) env \<Rightarrow> 'i AgentTask \<Rightarrow> ('i, 'j) state
     \<Rightarrow> (js_error + int \<times> (string + string)) \<times> ('i, 'j) state" where
  "call_provider E task s =
     (let s0 = s\<lparr>bodyCalls := Suc (bodyCalls s)\<rparr>;
          systemPrompt = getSystemPrompt (task_type task)
      in case getUserPrompt E task of
           Inl e \<Rightarrow> (Inl e, s0)
         | Inr userPrompt \<Rightarrow>
             (let (lat, reply) = chat E (chatCalls s0) systemPrompt userPrompt
              in (Inr (now s0 + int lat, reply), s0\<lparr>chatCalls := Suc (chatCalls s0)\<rparr>)))"

definition call_body ::
  "('i, 'j) env \<Rightarrow> AgentConfig \<Rightarrow> 'i AgentTask \<Rightarrow> int \<Rightarrow> ('i, 'j) state
     \<Rightarrow> 'j point \<times> ('i, 'j) state" where
  "call_body E cfg task startTime s =
     (case call_provider E task s of
        (Inl e, s0) \<Rightarrow> on_throw E cfg task startTime e s0
      | (Inr (t, reply), s0) \<Rightarrow> (AtChat startTime t reply, s0))"

text \<open>One pass of the loop of \<^verbatim>\<open>waitForDependencies\<close>, from its test.\<close>

definition poll ::
  "('i, 'j) env \<Rightarrow> AgentConfig \<Rightarrow> 'i AgentTask \<Rightarrow> int \<Rightarrow> string list \<Rightarrow> ('i, 'j) state
     \<Rightarrow> 'j point \<times> ('i, 'j) state" where
  "poll E cfg task startTime deps s =
     (if now s - startTime < timeout cfg then
        (if allComplete (taskResults s) deps then call_body E cfg task startTime s
         else (AtPoll startTime deps (now s + 100 + int (timer_lag E (now s))),
               s\<lparr>sleeps := sleeps s @ [100]\<rparr>))
      else on_throw E cfg task startTime
             (Error ''Dependency timeout: Some dependencies did not complete in time'') s)"

text \<open>\<^verbatim>\<open>executeTask\<close> from its call to its first suspension.\<close>

definition start ::
  "('i, 'j) env \<Rightarrow> AgentConfig \<Rightarrow> 'i AgentTask \<Rightarrow> ('i, 'j) state
     \<Rightarrow> 'j point \<times> ('i, 'j) state" where
  "start E cfg task s =
     (case dependencies task of
        None \<Rightarrow> call_body E cfg task (now s) s
      | Some deps \<Rightarrow> poll E cfg task (now s) deps s)"

text \<open>An execution from the point at which it was suspended to its next one.\<close>

fun resume ::
  "('i, 'j) env \<Rightarrow> AgentConfig \<Rightarrow> 'i AgentTask \<Rightarrow> 'j point \<Rightarrow> ('i, 'j) state
     \<Rightarrow> 'j point \<times> ('i, 'j) state" where
  "resume E cfg task (AtPoll startTime deps t) s = poll E cfg task startTime deps s"
| "resume E cfg task (AtChat startTime t (Inr content)) s =
     (Settled (Inr (success task (parseTaskResult E (task_type task) content) (now s - startTime))), s)"
| "resume E cfg task (AtChat startTime t (Inl m)) s = on_throw E cfg task startTime (Error m) s"
| "resume E cfg task (AtBackoff err attempt t) s =
     (case call_provider E task s of
        (Inl e, s0) \<Rightarrow> on_retry_throw E cfg task err attempt e s0
      | (Inr (t', reply), s0) \<Rightarrow> (AtRetryChat err attempt t' reply, s0))"
| "resume E cfg task (AtRetryChat err attempt t (Inr content)) s =
     (Settled (Inr (success task (parseTaskResult E (task_type task) content) 0)), s)"
| "resume E cfg task (AtRetryChat err attempt t (Inl m)) s =
     on_retry_throw E cfg task err attempt (Error m) s"
| "resume E cfg task (Settled r) s = (Settled r, s)"

text \<open>
  The executions of one orchestrator: those started by a call of \<^verbatim>\<open>executeTask\<close> (from
  outside or from \<^verbatim>\<open>assignTask\<close>), and those started by the pool for
  \<^verbatim>\<open>executeParallel\<close>; the tasks the pool has not started yet wait in order.
\<close>

record ('i, 'j) execution =
  exec_task :: "'i AgentTask"
  exec_point :: "'j point"
  pooled :: bool

record ('i, 'j) system =
  shared :: "('i, 'j) state"
  executions :: "('i, 'j) execution list"
  waiting :: "'i AgentTask list"

definition initial :: "int \<Rightarrow> ('i, 'j) system" where
  "initial t = \<lparr>shared = init t, executions = [], waiting = []\<rparr>"

text \<open>The executions started by the pool that have not settled.\<close>

definition pool_running :: "('i, 'j) system \<Rightarrow> nat" where
  "pool_running sys = length (filter (\<lambda>x. pooled x \<and> \<not> is_settled (exec_point x)) (executions sys))"

text \<open>
  Modelled from the spec: the bounded-concurrency pool behind \<^verbatim>\<open>taskQueue\<close> (the class
  \<^verbatim>\<open>PQueue\<close> of the package p-queue, which is not part of the sources). The
  specification describes it as a bounded worker pool whose size is the configured
  \<^verbatim>\<open>maxConcurrent\<close>, to which \<^verbatim>\<open>executeParallel\<close> submits every task. The pool starts a
  waiting task while fewer than \<^verbatim>\<open>maxConcurrent\<close> of the executions it started are
  unsettled, in the order of submission.
\<close>

fun admit ::
  "('i, 'j) env \<Rightarrow> AgentConfig \<Rightarrow> 'i AgentTask list \<Rightarrow> ('i, 'j) system \<Rightarrow> ('i, 'j) system" where
  "admit E cfg [] sys = sys\<lparr>waiting := []\<rparr>"
| "admit E cfg (task # tasks) sys =
     (if int (pool_running sys) < maxConcurrent cfg
      then (let (p, s') = start E cfg task (shared sys)
            in admit E cfg tasks
                 (sys\<lparr>shared := s',
                      executions := executions sys @ [\<lparr>exec_task = task, exec_point = p, pooled = True\<rparr>]\<rparr>))
      else sys\<lparr>waiting := task # tasks\<rparr>)"

text \<open>A call of \<^verbatim>\<open>executeTask\<close>: the execution starts at once, outside the pool.\<close>

definition call_executeTask ::
  "('i, 'j) env \<Rightarrow> AgentConfig \<Rightarrow> 'i AgentTask \<Rightarrow> ('i, 'j) system \<Rightarrow> ('i, 'j) system" where
  "call_executeTask E cfg task sys =
     (let (p, s') = start E cfg task (shared sys)
      in sys\<lparr>shared := s',
             executions := executions sys @ [\<lparr>exec_task = task, exec_point = p, pooled = False\<rparr>]\<rparr>)"

text \<open>A call of \<^verbatim>\<open>executeParallel\<close>: every task goes to the pool.\<close>

definition call_executeParallel ::
  "('i, 'j) env \<Rightarrow> AgentConfig \<Rightarrow> 'i AgentTask list \<Rightarrow> ('i, 'j) system \<Rightarrow> ('i, 'j) system" where
  "call_executeParallel E cfg tasks sys = admit E cfg (waiting sys @ tasks) sys"

text \<open>Time passes; an execution can resume once the clock has reached its instant.\<close>

definition tick :: "nat \<Rightarrow> ('i, 'j) system \<Rightarrow> ('i, 'j) system" where
  "tick d sys = sys\<lparr>shared := (shared sys)\<lparr>now := now (shared sys) + int d\<rparr>\<rparr>"

definition can_resume :: "('i, 'j) system \<Rightarrow> nat \<Rightarrow> bool" where
  "can_resume sys i \<longleftrightarrow>
     i < length (executions sys) \<and>
     (case due (exec_point (executions sys ! i)) of None \<Rightarrow> False | Some t \<Rightarrow> t \<le> now (shared sys))"

text \<open>
  The event loop resumes a suspended execution whose timer or call is due; when an
  execution of the pool settles, the pool starts the tasks it can.
\<close>

definition resume_execution ::
  "('i, 'j) env \<Rightarrow> AgentConfig \<Rightarrow> nat \<Rightarrow> ('i, 'j) system \<Rightarrow> ('i, 'j) system" where
  "resume_execution E cfg i sys =
     (if can_resume sys i then
        (let x = executions sys ! i;
             (p, s') = resume E cfg (exec_task x) (exec_point x) (shared sys);
             sys' = sys\<lparr>shared := s', executions := (executions sys)[i := x\<lparr>exec_point := p\<rparr>]\<rparr>
         in if pooled x \<and> is_settled p then admit E cfg (waiting sys') sys' else sys')
      else sys)"

text \<open>
  The steps of the system: a call of \<^verbatim>\<open>executeTask\<close>; a call of \<^verbatim>\<open>executeParallel\<close>;
  the passing of time; the resumption of an execution (nothing happens when it is not
  due); the write of an outcome to the result store by an \<^verbatim>\<open>assignTask\<close>.
\<close>

inductive sys_step ::
  "('i, 'j) env \<Rightarrow> AgentConfig \<Rightarrow> ('i, 'j) system \<Rightarrow> ('i, 'j) system \<Rightarrow> bool"
  for E :: "('i, 'j) env" and cfg :: AgentConfig where
  called: "sys_step E cfg sys (call_executeTask E cfg task sys)"
| submitted: "sys_step E cfg sys (call_executeParallel E cfg tasks sys)"
| ticked: "sys_step E cfg sys (tick d sys)"
| resumed: "sys_step E cfg sys (resume_execution E cfg i sys)"
| stored: "sys_step E cfg sys (sys\<lparr>shared := record_result tid result (shared sys)\<rparr>)"

inductive sys_reachable ::
  "('i, 'j) env \<Rightarrow> AgentConfig \<Rightarrow> ('i, 'j) system \<Rightarrow> bool"
  for E :: "('i, 'j) env" and cfg :: AgentConfig where
  at_start: "sys_reachable E cfg (initial t)"
| later: "sys_reachable E cfg sys \<Longrightarrow> sys_step E cfg sys sys' \<Longrightarrow> sys_reachable E cfg sys'"

text \<open>The task bodies in flight: all of them, and those of executions of the pool.\<close>

definition bodies_in_flight :: "('i, 'j) system \<Rightarrow> nat" where
  "bodies_in_flight sys = length (filter (\<lambda>x. in_body (exec_point x)) (executions sys))"

definition pooled_bodies_in_flight :: "('i, 'j) system \<Rightarrow> nat" where
  "pooled_bodies_in_flight sys =
     length (filter (\<lambda>x. pooled x \<and> in_body (exec_point x)) (executions sys))"

text \<open>
  An execution that runs alone, resumed at the instant at which its timer or call is
  due, until it settles.
\<close>

inductive solo ::
  "('i, 'j) env \<Rightarrow> AgentConfig \<Rightarrow> 'i AgentTask \<Rightarrow> 'j point \<times> ('i, 'j) state
     \<Rightarrow> (js_error + 'j AgentResult) \<times> ('i, 'j) state \<Rightarrow> bool"
  for E :: "('i, 'j) env" and cfg :: AgentConfig and task :: "'i AgentTask" where
  finished: "solo E cfg task (Settled r, s) (r, s)"
| resumed_at: "due p = Some t \<Longrightarrow> solo E cfg task (resume E cfg task p (s\<lparr>now := t\<rparr>)) out
     \<Longrightarrow> solo E cfg task (p, s) out"

text \<open>The rest of the \<^verbatim>\<open>try\<close> block of \<^verbatim>\<open>executeTask\<close> once the dependencies are resolved.\<close>

definition after_wait ::
  "('i, 'j) env \<Rightarrow> AgentConfig \<Rightarrow> 'i AgentTask \<Rightarrow> int \<Rightarrow> ('i, 'j) state
     \<Rightarrow> (js_error + 'j AgentResult) \<times> ('i, 'j) state" where
  "after_wait E cfg task startTime s1 =
     (case processTask E task s1 of
        (Inl err, s2) \<Rightarrow> executeTask_catch E cfg task startTime err s2
      | (Inr result, s2) \<Rightarrow> (Inr (success task result (now s2 - startTime)), s2))"

section \<open>Predicates on outcomes and on the registry\<close>

text \<open>
  The shape of the outcome of a task: it names the task, and it is either a success
  without an error description or a failure with one.
\<close>

definition outcome_of :: "'i AgentTask \<Rightarrow> 'j AgentResult \<Rightarrow> bool" where
  "outcome_of task r \<longleftrightarrow>
     taskId r = task_id task \<and>
     (status r = Success \<and> error r = None \<or> status r = Failure \<and> error r \<noteq> None)"

text \<open>A settled promise of the batch: fulfilled with the outcome of the task at its position.\<close>

definition settled_for :: "'i AgentTask list \<Rightarrow> nat \<times> (js_error + 'j AgentResult option) \<Rightarrow> bool" where
  "settled_for tasks p \<longleftrightarrow>
     fst p < length tasks \<and>
     (case snd p of Inr (Some r) \<Rightarrow> outcome_of (tasks ! fst p) r | _ \<Rightarrow> False)"



text \<open>
  The inductive invariant: the same for every object ever allocated, and the allocated
  addresses are those below \<open>nextAddr\<close>.
\<close>

definition heap_ok :: "('i, 'j) state \<Rightarrow> bool" where
  "heap_ok s \<longleftrightarrow>
     (\<forall>a agent. heap s a = Some agent \<longrightarrow>
        (currentTask agent \<noteq> None \<longleftrightarrow> agent_status agent = Busy) \<and>
        agent_status agent \<noteq> ErrorStatus) \<and>
     (\<forall>a. heap s a \<noteq> None \<longleftrightarrow> a < nextAddr s) \<and>
     (\<forall>agentId a. agents s agentId = Some a \<longrightarrow> a < nextAddr s)"

text \<open>The fields of an agent that no operation of the orchestrator assigns to.\<close>

definition fixed_fields :: "'i Agent \<Rightarrow> string \<times> string \<times> string list" where
  "fixed_fields agent = (agent_id agent, name agent, capabilities agent)"

text \<open>
  A provider that never rejects with \<^verbatim>\<open>null\<close> or \<^verbatim>\<open>undefined\<close>: then no read of
  \<^verbatim>\<open>message\<close> throws, and \<^verbatim>\<open>executeTask\<close> resolves to an outcome of its task.
\<close>

definition never_nullish :: "provider \<Rightarrow> bool" where
  "never_nullish provider \<longleftrightarrow>
     (\<forall>n systemPrompt userPrompt.
        snd (provider n systemPrompt userPrompt) \<noteq> Inl NullValue \<and>
        snd (provider n systemPrompt userPrompt) \<noteq> Inl UndefinedValue)"

section \<open>Concrete scenarios\<close>

text \<open>
  A small instance of the environment: the only input payload is \<^verbatim>\<open>{}\<close>, the only
  content \<^verbatim>\<open>JSON.parse\<close> accepts is the text \<^verbatim>\<open>{}\<close>, every call of the provider takes
  10 ms, timers fire on time and nothing else touches the result store. \<open>reply\<close> gives
  the provider's answer to its n-th call.
\<close>

definition ex_env :: "(nat \<Rightarrow> string + string) \<Rightarrow> (unit, unit) env" where
  "ex_env reply =
     \<lparr>chat = (\<lambda>n systemPrompt userPrompt. (10, reply n)),
      json_parse = (\<lambda>content. if content = ''{}'' then Some () else None),
      json_stringify = (\<lambda>_. Inr ''{}''),
      timer_lag = (\<lambda>_. 0),
      interfere = (\<lambda>t results. results)\<rparr>"

definition ex_cfg :: "int \<Rightarrow> int \<Rightarrow> AgentConfig" where
  "ex_cfg tmo n = \<lparr>maxConcurrent = 1, timeout = tmo, retryAttempts = n, autoScale = None\<rparr>"

definition ex_task :: "string \<Rightarrow> string list option \<Rightarrow> bool option \<Rightarrow> unit AgentTask" where
  "ex_task tid deps retry =
     \<lparr>task_id = tid, task_type = Analyze, description = ''x'', input = (), priority = 1,
      dependencies = deps, task_timeout = None, retryOnFailure = retry\<rparr>"

text \<open>A result store in which \<^verbatim>\<open>t1\<close> is recorded as failed.\<close>

definition ex_failed_store :: "(unit, unit) state" where
  "ex_failed_store = (init 0)\<lparr>taskResults := [''t1'' \<mapsto> failure (ex_task ''t1'' None None) ''boom'' 10]\<rparr>"

text \<open>A registry with one agent, created at instant 0.\<close>

definition ex_registry :: "(unit, unit) state" where
  "ex_registry = snd (createAgent ''k3j9x0abc'' ''Reviewer'' [''review''] (init 0))"

text \<open>A batch of three tasks under \<^verbatim>\<open>maxConcurrent: 1\<close>, just after its submission.\<close>

definition ex_batch :: "(unit, unit) system" where
  "ex_batch =
     call_executeParallel (ex_env (\<lambda>n. Inr ''{}'')) (ex_cfg 1000 3)
       [ex_task ''t1'' None None, ex_task ''t2'' None None, ex_task ''t3'' None None] (initial 0)"

text \<open>A provider whose every call rejects with \<^verbatim>\<open>null\<close> after 10 ms.\<close>

definition ex_null_provider :: provider where
  "ex_null_provider = (\<lambda>n systemPrompt userPrompt. (10, Inl NullValue))"

section \<open>What each operation leaves unchanged\<close>

lemma sleep_frame [simp]:
  "chatCalls (sleep E ms s) = chatCalls s"
  "bodyCalls (sleep E ms s) = bodyCalls s"
  "agents (sleep E ms s) = agents s"
  "heap (sleep E ms s) = heap s"
  "nextAddr (sleep E ms s) = nextAddr s"
  "sleeps (sleep E ms s) = sleeps s @ [ms]"
  by (simp_all add: sleep_def Let_def)

lemma sleep_now: "now (sleep E ms s) = now s + ms + int (timer_lag E (now s))"
  by (simp add: sleep_def Let_def)

lemma sleep_taskResults:
  "taskResults (sleep E ms s) = interfere E (now s + ms + int (timer_lag E (now s))) (taskResults s)"
  by (simp add: sleep_def Let_def)

lemma wait_loop_frame:
  "chatCalls (snd (wait_loop E m st deps s)) = chatCalls s \<and>
   bodyCalls (snd (wait_loop E m st deps s)) = bodyCalls s \<and>
   agents (snd (wait_loop E m st deps s)) = agents s \<and>
   heap (snd (wait_loop E m st deps s)) = heap s \<and>
   nextAddr (snd (wait_loop E m st deps s)) = nextAddr s"
proof (induction E m st deps s rule: wait_loop.induct)
  case (1 E m st deps s)
  show ?case
  proof (cases "now s - st < m \<and> \<not> allComplete (taskResults s) deps")
    case True
    with "1.IH" show ?thesis
      by (subst (1 2 3 4 5) wait_loop.simps) simp
  next
    case False
    then show ?thesis
      by (subst (1 2 3 4 5) wait_loop.simps) auto
  qed
qed

lemma resolveDependencies_frame:
  "chatCalls (snd (resolveDependencies E cfg task s)) = chatCalls s \<and>
   bodyCalls (snd (resolveDependencies E cfg task s)) = bodyCalls s \<and>
   agents (snd (resolveDependencies E cfg task s)) = agents s \<and>
   heap (snd (resolveDependencies E cfg task s)) = heap s \<and>
   nextAddr (snd (resolveDependencies E cfg task s)) = nextAddr s"
  using wait_loop_frame [of E "timeout cfg" "now s" _ s]
  by (simp add: resolveDependencies_def waitForDependencies_def split: option.split)

lemma processTask_reply:
  assumes "getUserPrompt E task = Inr up"
      and "chat E (chatCalls s) (getSystemPrompt (task_type task)) up = (lat, Inr content)"
  shows "fst (processTask E task s) = Inr (parseTaskResult E (task_type task) content)"
  using assms by (simp add: processTask_def Let_def)

lemma processTask_bodyCalls: "bodyCalls (snd (processTask E task s)) = Suc (bodyCalls s)"
  by (simp add: processTask_def Let_def split: sum.split prod.split)

lemma processTask_sleeps: "sleeps (snd (processTask E task s)) = sleeps s"
  by (simp add: processTask_def Let_def split: sum.split prod.split)

lemma processTask_frame:
  "agents (snd (processTask E task s)) = agents s \<and>
   heap (snd (processTask E task s)) = heap s \<and>
   nextAddr (snd (processTask E task s)) = nextAddr s"
  by (simp add: processTask_def Let_def split: sum.split prod.split)

lemma retry_loop_frame:
  "agents (snd (retry_loop E cfg task err attempt s)) = agents s \<and>
   heap (snd (retry_loop E cfg task err attempt s)) = heap s \<and>
   nextAddr (snd (retry_loop E cfg task err attempt s)) = nextAddr s"
proof (induction E cfg task err attempt s rule: retry_loop.induct)
  case (1 E cfg task err attempt s)
  let ?s1 = "sleep E (1000 * attempt) s"
  obtain r s2 where p: "processTask E task ?s1 = (r, s2)"
    by (cases "processTask E task ?s1")
  have s2: "agents s2 = agents s \<and> heap s2 = heap s \<and> nextAddr s2 = nextAddr s"
    using processTask_frame [of E task ?s1] p by simp
  show ?case
  proof (cases "attempt \<le> retryAttempts cfg")
    case False
    then show ?thesis
      by (subst (1 2 3) retry_loop.simps) simp
  next
    case True
    show ?thesis
    proof (cases r)
      case (Inr out)
      with True p s2 show ?thesis
        by (subst (1 2 3) retry_loop.simps) simp
    next
      case (Inl e)
      show ?thesis
      proof (cases "attempt = retryAttempts cfg")
        case True
        with p Inl s2 show ?thesis
          by (subst (1 2 3) retry_loop.simps) simp
      next
        case False
        from "1.IH" [OF True refl p [symmetric] Inl False] s2
        have "agents (snd (retry_loop E cfg task err (attempt + 1) s2)) = agents s \<and>
              heap (snd (retry_loop E cfg task err (attempt + 1) s2)) = heap s \<and>
              nextAddr (snd (retry_loop E cfg task err (attempt + 1) s2)) = nextAddr s"
          by simp
        with True p Inl False show ?thesis
          by (subst (1 2 3) retry_loop.simps) simp
      qed
    qed
  qed
qed

lemma executeTask_frame:
  "agents (snd (executeTask E cfg task s)) = agents s \<and>
   heap (snd (executeTask E cfg task s)) = heap s \<and>
   nextAddr (snd (executeTask E cfg task s)) = nextAddr s"
proof -
  obtain d s1 where d: "resolveDependencies E cfg task s = (d, s1)"
    by (cases "resolveDependencies E cfg task s")
  have s1: "agents s1 = agents s \<and> heap s1 = heap s \<and> nextAddr s1 = nextAddr s"
    using resolveDependencies_frame [of E cfg task s] d by simp
  obtain p s2 where p: "processTask E task s1 = (p, s2)"
    by (cases "processTask E task s1")
  have s2: "agents s2 = agents s \<and> heap s2 = heap s \<and> nextAddr s2 = nextAddr s"
    using processTask_frame [of E task s1] p s1 by simp
  have c: "agents (snd (executeTask_catch E cfg task st e s')) = agents s' \<and>
           heap (snd (executeTask_catch E cfg task st e s')) = heap s' \<and>
           nextAddr (snd (executeTask_catch E cfg task st e s')) = nextAddr s'" for st e s'
    using retry_loop_frame [of E cfg task e 1 s']
    by (simp add: executeTask_catch_def retryTask_def)
  show ?thesis
  proof (cases d)
    case (Inl e)
    with d s1 c [of "now s" e s1] show ?thesis
      by (simp add: executeTask_def)
  next
    case (Inr u)
    show ?thesis
    proof (cases p)
      case (Inl e)
      with d p Inr s2 c [of "now s" e s2] show ?thesis
        by (simp add: executeTask_def)
    next
      case (Inr out)
      with d p \<open>d = Inr u\<close> s2 show ?thesis
        by (simp add: executeTask_def)
    qed
  qed
qed

section \<open>Claim C1: the result store after executeTask\<close>

text \<open>
  C1 at the batch of the scenario, under a dependency-wait window of 300 ms, with
  \<^verbatim>\<open>t1\<close> completing first. \<^verbatim>\<open>executeTask\<close> returns the success of \<^verbatim>\<open>t1\<close> and leaves the
  result store as it was: only \<^verbatim>\<open>assignTask\<close> writes to it. So \<^verbatim>\<open>t2\<close> never sees an
  outcome of \<^verbatim>\<open>t1\<close>, and its own outcome is the dependency timeout.
\<close>

theorem C1_executeTask_does_not_record:
  "fst (executeTask (ex_env (\<lambda>n. Inr ''{}'')) (ex_cfg 300 3) (ex_task ''t1'' None None) (init 0))
     = Inr \<lparr>taskId = ''t1'', status = Success, task_output = Parsed (), error = None,
            metrics = Some \<lparr>duration = 10, tokensUsed = None, filesModified = None\<rparr>\<rparr> \<and>
   getTaskResult (snd (executeTask (ex_env (\<lambda>n. Inr ''{}'')) (ex_cfg 300 3)
                         (ex_task ''t1'' None None) (init 0))) ''t1'' = None \<and>
   fst (executeParallel (ex_env (\<lambda>n. Inr ''{}'')) (ex_cfg 300 3) (\<lambda>i. i)
          [ex_task ''t1'' None None, ex_task ''t2'' (Some [''t1'']) None] (init 0))
     = Inr [\<lparr>taskId = ''t1'', status = Success, task_output = Parsed (), error = None,
              metrics = Some \<lparr>duration = 10, tokensUsed = None, filesModified = None\<rparr>\<rparr>,
            \<lparr>taskId = ''t2'', status = Failure, task_output = Null,
              error = Some ''Dependency timeout: Some dependencies did not complete in time'',
              metrics = Some \<lparr>duration = 300, tokensUsed = None, filesModified = None\<rparr>\<rparr>]"
  by (simp add: executeParallel_def completion_order_def run_queue.simps queue_add_def
        promise_all_def getTaskResult_def
        executeTask_def executeTask_catch_def failure_def
        resolveDependencies_def waitForDependencies_def wait_loop.simps allComplete_def
        processTask_def getUserPrompt_def parseTaskResult_def sleep_def success_def
        ex_env_def ex_cfg_def ex_task_def init_def Let_def)

text \<open>
  The same for every task: when nothing else writes to the result store,
  \<^verbatim>\<open>executeTask\<close> returns with the store it started from. The sibling path
  \<^verbatim>\<open>assignTask\<close> is the one that records the outcome.
\<close>

lemma wait_loop_store:
  assumes "\<forall>t results. interfere E t results = results"
  shows "taskResults (snd (wait_loop E m st deps s)) = taskResults s"
  using assms
proof (induction E m st deps s rule: wait_loop.induct)
  case (1 E m st deps s)
  show ?case
  proof (cases "now s - st < m \<and> \<not> allComplete (taskResults s) deps")
    case True
    with "1.IH" "1.prems" show ?thesis
      by (subst wait_loop.simps) (simp add: sleep_taskResults)
  next
    case False
    then show ?thesis
      by (subst wait_loop.simps) auto
  qed
qed

lemma processTask_store:
  assumes "\<forall>t results. interfere E t results = results"
  shows "taskResults (snd (processTask E task s)) = taskResults s"
  using assms by (simp add: processTask_def Let_def split: sum.split prod.split)

lemma retry_loop_store:
  assumes "\<forall>t results. interfere E t results = results"
  shows "taskResults (snd (retry_loop E cfg task err attempt s)) = taskResults s"
  using assms
proof (induction E cfg task err attempt s rule: retry_loop.induct)
  case (1 E cfg task err attempt s)
  let ?s1 = "sleep E (1000 * attempt) s"
  obtain r s2 where p: "processTask E task ?s1 = (r, s2)"
    by (cases "processTask E task ?s1")
  have s2: "taskResults s2 = taskResults s"
    using processTask_store [OF "1.prems", of task ?s1] p "1.prems" by (simp add: sleep_taskResults)
  show ?case
  proof (cases "attempt \<le> retryAttempts cfg")
    case False
    then show ?thesis
      by (subst retry_loop.simps) simp
  next
    case True
    show ?thesis
    proof (cases r)
      case (Inr out)
      with True p s2 show ?thesis
        by (subst retry_loop.simps) simp
    next
      case (Inl e)
      show ?thesis
      proof (cases "attempt = retryAttempts cfg")
        case True
        with p Inl s2 show ?thesis
          by (subst retry_loop.simps) simp
      next
        case False
        from "1.IH" [OF True refl p [symmetric] Inl False "1.prems"] s2
        have "taskResults (snd (retry_loop E cfg task err (attempt + 1) s2)) = taskResults s"
          by simp
        with True p Inl False show ?thesis
          by (subst retry_loop.simps) simp
      qed
    qed
  qed
qed

lemma executeTask_store:
  assumes "\<forall>t results. interfere E t results = results"
  shows "taskResults (snd (executeTask E cfg task s)) = taskResults s"
proof -
  obtain d s1 where d: "resolveDependencies E cfg task s = (d, s1)"
    by (cases "resolveDependencies E cfg task s")
  have "taskResults (snd (resolveDependencies E cfg task s)) = taskResults s"
    using wait_loop_store [OF assms, of "timeout cfg" "now s" _ s]
    by (simp add: resolveDependencies_def waitForDependencies_def split: option.split)
  then have s1: "taskResults s1 = taskResults s"
    using d by simp
  obtain p s2 where p: "processTask E task s1 = (p, s2)"
    by (cases "processTask E task s1")
  have s2: "taskResults s2 = taskResults s"
    using processTask_store [OF assms, of task s1] p s1 by simp
  have c: "taskResults (snd (executeTask_catch E cfg task st e s')) = taskResults s'" for st e s'
    using retry_loop_store [OF assms, of cfg task e 1 s']
    by (simp add: executeTask_catch_def retryTask_def)
  show ?thesis
  proof (cases d)
    case (Inl e)
    with d s1 c [of "now s" e s1] show ?thesis
      by (simp add: executeTask_def)
  next
    case (Inr u)
    show ?thesis
    proof (cases p)
      case (Inl e)
      with d p Inr s2 c [of "now s" e s2] show ?thesis
        by (simp add: executeTask_def)
    next
      case (Inr out)
      with d p \<open>d = Inr u\<close> s2 show ?thesis
        by (simp add: executeTask_def)
    qed
  qed
qed

lemma assignTask_records:
  assumes "agents s agentId = Some a"
      and "executeTask E cfg task (assign_begin a task s) = (Inr result, s2)"
  shows "getTaskResult (snd (assignTask E cfg agentId task s)) (task_id task) = Some result"
  using assms
  by (simp add: assignTask_def getTaskResult_def assign_end_def record_result_def)

section \<open>Claim C2: a dependency timeout and the retry branch\<close>

text \<open>
  C2 at a task that opted into retry, under a configuration with three retry attempts:
  the prerequisite \<^verbatim>\<open>t1\<close> has no outcome at all, the wait of \<^verbatim>\<open>t2\<close> times out after
  ten polls, and the \<^verbatim>\<open>catch\<close> block of \<^verbatim>\<open>executeTask\<close> hands the timeout to
  \<^verbatim>\<open>retryTask\<close>, which sleeps 1000 ms and calls the body without waiting again. The
  body runs once and the outcome of \<^verbatim>\<open>t2\<close> is a success.
\<close>

theorem C2_dependency_timeout_retried:
  "fst (executeTask (ex_env (\<lambda>n. Inr ''{}'')) (ex_cfg 1000 3)
          (ex_task ''t2'' (Some [''t1'']) (Some True)) (init 0))
     = Inr \<lparr>taskId = ''t2'', status = Success, task_output = Parsed (), error = None,
            metrics = Some \<lparr>duration = 0, tokensUsed = None, filesModified = None\<rparr>\<rparr> \<and>
   bodyCalls (snd (executeTask (ex_env (\<lambda>n. Inr ''{}'')) (ex_cfg 1000 3)
                     (ex_task ''t2'' (Some [''t1'']) (Some True)) (init 0))) = 1 \<and>
   sleeps (snd (executeTask (ex_env (\<lambda>n. Inr ''{}'')) (ex_cfg 1000 3)
                  (ex_task ''t2'' (Some [''t1'']) (Some True)) (init 0)))
     = replicate 10 100 @ [1000]"
  by (simp add: executeTask_def executeTask_catch_def retryTask_def retry_loop.simps
        resolveDependencies_def waitForDependencies_def wait_loop.simps allComplete_def
        processTask_def getUserPrompt_def parseTaskResult_def sleep_def success_def
        ex_env_def ex_cfg_def ex_task_def init_def Let_def numeral_eq_Suc)

text \<open>
  When the retry branch is not taken the code does what C2 says: a prerequisite that
  is not successful at the start of the wait and at no later poll makes the task end in
  a failure with the dependency-timeout message, and the body is not called.
\<close>

lemma wait_loop_never_success:
  assumes "d \<in> set deps"
      and "\<not> allComplete (taskResults s) [d]"
      and "\<forall>t results. \<not> allComplete (interfere E t results) [d]"
  shows "fst (wait_loop E m st deps s)
           = Inl (Error ''Dependency timeout: Some dependencies did not complete in time'')"
  using assms
proof (induction E m st deps s rule: wait_loop.induct)
  case (1 E m st deps s)
  have nc: "\<not> allComplete (taskResults s) deps"
    using "1.prems"(1,2) unfolding allComplete_def list_all_iff by auto
  show ?case
  proof (cases "now s - st < m")
    case False
    then show ?thesis
      by (subst wait_loop.simps) simp
  next
    case True
    have "\<not> allComplete (taskResults (sleep E 100 s)) [d]"
      using "1.prems"(3) by (simp add: sleep_taskResults)
    from "1.IH" [OF True nc "1.prems"(1) this "1.prems"(3)] True nc show ?thesis
      by (subst wait_loop.simps) simp
  qed
qed

lemma dependency_timeout_without_retry:
  assumes "dependencies task = Some deps"
      and "d \<in> set deps"
      and "\<not> allComplete (taskResults s) [d]"
      and "\<forall>t results. \<not> allComplete (interfere E t results) [d]"
      and "retryOnFailure task \<noteq> Some True \<or> retryAttempts cfg \<le> 0"
  shows "fst (executeTask E cfg task s)
           = Inr (failure task ''Dependency timeout: Some dependencies did not complete in time''
                    (now (snd (executeTask E cfg task s)) - now s)) \<and>
         bodyCalls (snd (executeTask E cfg task s)) = bodyCalls s"
proof -
  obtain r s1 where w: "resolveDependencies E cfg task s = (r, s1)"
    by (cases "resolveDependencies E cfg task s")
  have "fst (resolveDependencies E cfg task s)
          = Inl (Error ''Dependency timeout: Some dependencies did not complete in time'')"
    using wait_loop_never_success [OF assms(2,3,4), of "timeout cfg" "now s"] assms(1)
    by (simp add: resolveDependencies_def waitForDependencies_def)
  with w have r: "r = Inl (Error ''Dependency timeout: Some dependencies did not complete in time'')"
    by simp
  have b: "bodyCalls s1 = bodyCalls s"
    using resolveDependencies_frame [of E cfg task s] w by simp
  have x: "executeTask E cfg task s
             = (Inr (failure task ''Dependency timeout: Some dependencies did not complete in time''
                       (now s1 - now s)), s1)"
    using w r assms(5) by (auto simp: executeTask_def executeTask_catch_def Let_def)
  show ?thesis
    using x b by simp
qed

section \<open>Claim C3: a body that throws on every attempt\<close>

lemma always_throws:
  assumes "\<forall>s'. isl (fst (processTask E task s'))"
  shows "\<exists>e s2. processTask E task s = (Inl e, s2)"
proof -
  from assms have "isl (fst (processTask E task s))" by blast
  then obtain e where "fst (processTask E task s) = Inl e"
    by (auto simp: isl_def)
  then have "processTask E task s = (Inl e, snd (processTask E task s))"
    by (metis prod.collapse)
  then show ?thesis by blast
qed

text \<open>
  The retry loop when every call of the body throws: from \<open>attempt\<close> on it calls the
  body once for each remaining attempt, sleeps 1000 ms times the attempt number before
  each call, and returns the failure that carries the message of the error thrown by
  the last call.
\<close>

lemma retry_loop_all_fail:
  assumes "\<forall>s'. isl (fst (processTask E task s'))"
      and "attempt \<le> retryAttempts cfg"
  shows "bodyCalls (snd (retry_loop E cfg task err attempt s))
           = bodyCalls s + nat (retryAttempts cfg - attempt + 1) \<and>
         sleeps (snd (retry_loop E cfg task err attempt s))
           = sleeps s @ map (\<lambda>k. 1000 * k) [attempt..retryAttempts cfg] \<and>
         (\<exists>s3 e. processTask E task s3 = (Inl e, snd (retry_loop E cfg task err attempt s)) \<and>
                 fst (retry_loop E cfg task err attempt s) = Inr (failure task (message e) 0))"
  using assms
proof (induction E cfg task err attempt s rule: retry_loop.induct)
  case (1 E cfg task err attempt s)
  let ?s1 = "sleep E (1000 * attempt) s"
  from "1.prems"(1) obtain e s2 where p: "processTask E task ?s1 = (Inl e, s2)"
    using always_throws by blast
  have b2: "bodyCalls s2 = Suc (bodyCalls s)"
    using processTask_bodyCalls [of E task ?s1] p by simp
  have sl2: "sleeps s2 = sleeps s @ [1000 * attempt]"
    using processTask_sleeps [of E task ?s1] p by simp
  show ?case
  proof (cases "attempt = retryAttempts cfg")
    case True
    have r: "retry_loop E cfg task err attempt s = (Inr (failure task (message e) 0), s2)"
      using True p by (subst retry_loop.simps) simp
    show ?thesis
      unfolding r using True b2 sl2 p by auto
  next
    case False
    with "1.prems"(2) have lt: "attempt + 1 \<le> retryAttempts cfg"
      by simp
    have r: "retry_loop E cfg task err attempt s = retry_loop E cfg task err (attempt + 1) s2"
      using False "1.prems"(2) p by (subst retry_loop.simps) simp
    note ih = "1.IH" [OF "1.prems"(2) refl p [symmetric] refl False "1.prems"(1) lt]
    have up: "[attempt..retryAttempts cfg] = attempt # [attempt + 1..retryAttempts cfg]"
      using "1.prems"(2) by (simp add: upto_rec1)
    have n: "bodyCalls s2 + nat (retryAttempts cfg - (attempt + 1) + 1)
               = bodyCalls s + nat (retryAttempts cfg - attempt + 1)"
      using b2 lt by simp
    show ?thesis
      unfolding r using ih n sl2 up by simp
  qed
qed

text \<open>
  C3 says three calls of the body. With \<^verbatim>\<open>retryAttempts: 3\<close> the code makes the first
  attempt in \<^verbatim>\<open>executeTask\<close> and then three more in \<^verbatim>\<open>retryTask\<close>: four calls.
\<close>

theorem C3_always_failing_body_counterexample:
  "bodyCalls (snd (executeTask (ex_env (\<lambda>n. Inl ''boom'')) (ex_cfg 1000 3)
                     (ex_task ''t1'' None (Some True)) (init 0))) = 4"
  by (simp add: executeTask_def executeTask_catch_def retryTask_def retry_loop.simps
        resolveDependencies_def processTask_def getUserPrompt_def sleep_def
        ex_env_def ex_cfg_def ex_task_def init_def Let_def)

text \<open>
  C3, amended: for every task whose body throws on every attempt, with
  \<^verbatim>\<open>retryOnFailure = true\<close> and \<^verbatim>\<open>retryAttempts = 3\<close>, once the dependency phase has
  passed \<^verbatim>\<open>executeTask\<close> calls the body exactly four times (the first attempt and three
  re-attempts), sleeps 1000, 2000 and 3000 ms before the three re-attempts (1000 ms
  times the attempt number), and returns one failure outcome that carries the message
  of the error thrown by the last call.
\<close>

theorem C3_always_failing_body_retried:
  assumes "retryOnFailure task = Some True"
      and "retryAttempts cfg = 3"
      and "resolveDependencies E cfg task s = (Inr (), s1)"
      and "\<forall>s'. isl (fst (processTask E task s'))"
  shows "bodyCalls (snd (executeTask E cfg task s)) = bodyCalls s + 4 \<and>
         sleeps (snd (executeTask E cfg task s)) = sleeps s1 @ [1000, 2000, 3000] \<and>
         (\<exists>s3 e. processTask E task s3 = (Inl e, snd (executeTask E cfg task s)) \<and>
                 fst (executeTask E cfg task s) = Inr (failure task (message e) 0))"
proof -
  from assms(4) obtain e0 s2 where p: "processTask E task s1 = (Inl e0, s2)"
    using always_throws by blast
  have b1: "bodyCalls s1 = bodyCalls s"
    using resolveDependencies_frame [of E cfg task s] assms(3) by simp
  have b2: "bodyCalls s2 = Suc (bodyCalls s)"
    using processTask_bodyCalls [of E task s1] p b1 by simp
  have sl2: "sleeps s2 = sleeps s1"
    using processTask_sleeps [of E task s1] p by simp
  have x: "executeTask E cfg task s = retry_loop E cfg task e0 1 s2"
    using assms(1,2,3) p by (simp add: executeTask_def executeTask_catch_def retryTask_def)
  have le: "(1::int) \<le> retryAttempts cfg"
    using assms(2) by simp
  have up: "[1..retryAttempts cfg] = [1, 2, 3]"
    using assms(2) by (simp add: upto_rec1)
  show ?thesis
    unfolding x using retry_loop_all_fail [OF assms(4) le, of e0 s2] b2 sl2 up assms(2) by simp
qed

theorem C3_always_failing_body_retried_witness:
  "bodyCalls (snd (executeTask (ex_env (\<lambda>n. Inl ''boom'')) (ex_cfg 1000 3)
                     (ex_task ''t1'' None (Some True)) (init 0)))
     = bodyCalls (init 0 :: (unit, unit) state) + 4 \<and>
   sleeps (snd (executeTask (ex_env (\<lambda>n. Inl ''boom'')) (ex_cfg 1000 3)
                  (ex_task ''t1'' None (Some True)) (init 0)))
     = sleeps (init 0 :: (unit, unit) state) @ [1000, 2000, 3000] \<and>
   (\<exists>s3 e. processTask (ex_env (\<lambda>n. Inl ''boom'')) (ex_task ''t1'' None (Some True)) s3
              = (Inl e, snd (executeTask (ex_env (\<lambda>n. Inl ''boom'')) (ex_cfg 1000 3)
                               (ex_task ''t1'' None (Some True)) (init 0))) \<and>
           fst (executeTask (ex_env (\<lambda>n. Inl ''boom'')) (ex_cfg 1000 3)
                  (ex_task ''t1'' None (Some True)) (init 0))
              = Inr (failure (ex_task ''t1'' None (Some True)) (message e) 0))"
proof -
  have 1: "retryOnFailure (ex_task ''t1'' None (Some True)) = Some True"
    by (simp add: ex_task_def)
  have 2: "retryAttempts (ex_cfg 1000 3) = 3"
    by (simp add: ex_cfg_def)
  have 3: "resolveDependencies (ex_env (\<lambda>n. Inl ''boom'')) (ex_cfg 1000 3)
             (ex_task ''t1'' None (Some True)) (init 0) = (Inr (), init 0)"
    by (simp add: resolveDependencies_def ex_task_def)
  have 4: "\<forall>s'. isl (fst (processTask (ex_env (\<lambda>n. Inl ''boom'')) (ex_task ''t1'' None (Some True)) s'))"
    by (simp add: processTask_def getUserPrompt_def ex_env_def Let_def)
  show ?thesis
    using C3_always_failing_body_retried [OF 1 2 3 4] .
qed

section \<open>Claim C4: failures as outcomes, in input order\<close>

lemma retry_loop_outcome:
  "\<exists>r. fst (retry_loop E cfg task err attempt s) = Inr r \<and> outcome_of task r"
proof (induction E cfg task err attempt s rule: retry_loop.induct)
  case (1 E cfg task err attempt s)
  show ?case
  proof (cases "attempt \<le> retryAttempts cfg")
    case False
    then show ?thesis
      by (subst retry_loop.simps) (simp add: failure_def outcome_of_def)
  next
    case True
    obtain r s2 where p: "processTask E task (sleep E (1000 * attempt) s) = (r, s2)"
      by (cases "processTask E task (sleep E (1000 * attempt) s)")
    show ?thesis
    proof (cases r)
      case (Inr out)
      with True p show ?thesis
        by (subst retry_loop.simps) (simp add: success_def outcome_of_def)
    next
      case (Inl e)
      show ?thesis
      proof (cases "attempt = retryAttempts cfg")
        case True
        with p Inl show ?thesis
          by (subst retry_loop.simps) (simp add: failure_def outcome_of_def)
      next
        case False
        from "1.IH" [OF True refl p [symmetric] Inl False]
        have "\<exists>r. fst (retry_loop E cfg task err (attempt + 1) s2) = Inr r \<and> outcome_of task r" .
        with True p Inl False show ?thesis
          by (subst retry_loop.simps) simp
      qed
    qed
  qed
qed

lemma executeTask_catch_outcome:
  "\<exists>r. fst (executeTask_catch E cfg task st err s) = Inr r \<and> outcome_of task r"
  using retry_loop_outcome [of E cfg task err 1 s]
  by (simp add: executeTask_catch_def retryTask_def failure_def outcome_of_def)

lemma executeTask_outcome:
  "\<exists>r. fst (executeTask E cfg task s) = Inr r \<and> outcome_of task r"
proof -
  obtain d s1 where d: "resolveDependencies E cfg task s = (d, s1)"
    by (cases "resolveDependencies E cfg task s")
  obtain p s2 where p: "processTask E task s1 = (p, s2)"
    by (cases "processTask E task s1")
  show ?thesis
  proof (cases d)
    case (Inl e)
    with d show ?thesis
      using executeTask_catch_outcome [of E cfg task "now s" e s1]
      by (simp add: executeTask_def)
  next
    case (Inr u)
    show ?thesis
    proof (cases p)
      case (Inl e)
      with d p Inr show ?thesis
        using executeTask_catch_outcome [of E cfg task "now s" e s2]
        by (simp add: executeTask_def)
    next
      case (Inr out)
      with d p \<open>d = Inr u\<close> show ?thesis
        by (simp add: executeTask_def success_def outcome_of_def)
    qed
  qed
qed

lemma queue_add_executeTask:
  "\<exists>r. fst (queue_add (executeTask E cfg task) s) = Inr (Some r) \<and> outcome_of task r"
proof -
  from executeTask_outcome [of E cfg task s]
  obtain r where r: "fst (executeTask E cfg task s) = Inr r" "outcome_of task r"
    by blast
  then obtain s' where "executeTask E cfg task s = (Inr r, s')"
    by (cases "executeTask E cfg task s") simp
  then have "fst (queue_add (executeTask E cfg task) s) = Inr (Some r)"
    by (simp add: queue_add_def)
  with r(2) show ?thesis by blast
qed

lemma run_queue_settled:
  assumes "\<forall>q \<in> set queue. fst q < length tasks \<and> snd q = tasks ! fst q"
  shows "map fst (fst (run_queue E cfg queue s)) = map fst queue \<and>
         (\<forall>p \<in> set (fst (run_queue E cfg queue s)). settled_for tasks p)"
  using assms
proof (induction queue arbitrary: s)
  case Nil
  then show ?case by simp
next
  case (Cons q queue)
  obtain i task where q: "q = (i, task)" by (cases q)
  from Cons.prems q have i: "i < length tasks" "task = tasks ! i"
    by simp_all
  from queue_add_executeTask [of E cfg task s]
  obtain r where r: "fst (queue_add (executeTask E cfg task) s) = Inr (Some r)" "outcome_of task r"
    by blast
  obtain s1 where s1: "queue_add (executeTask E cfg task) s = (Inr (Some r), s1)"
    using r(1) by (cases "queue_add (executeTask E cfg task) s") simp
  obtain rs s2 where rs: "run_queue E cfg queue s1 = (rs, s2)"
    by (cases "run_queue E cfg queue s1")
  from Cons.IH [of s1] Cons.prems rs
  have ih: "map fst rs = map fst queue" "\<forall>p \<in> set rs. settled_for tasks p"
    by simp_all
  have "fst (run_queue E cfg (q # queue) s) = (i, Inr (Some r)) # rs"
    using q s1 rs by simp
  moreover have "settled_for tasks (i, Inr (Some r))"
    using i r(2) by (simp add: settled_for_def)
  ultimately show ?case
    using ih q by simp
qed

lemma first_rejection_settled:
  "\<forall>p \<in> set settled. settled_for tasks p \<Longrightarrow> first_rejection settled = None"
proof (induction settled)
  case Nil
  then show ?case by simp
next
  case (Cons p settled)
  obtain i r where p: "p = (i, r)" by (cases p)
  from Cons.prems p obtain v where "r = Inr v"
    by (cases r) (auto simp: settled_for_def)
  with Cons p show ?case by simp
qed

lemma fulfilled_settled:
  "\<forall>p \<in> set settled. settled_for tasks p \<Longrightarrow>
   map taskId (List.map_filter (\<lambda>result. result) (fulfilled settled))
     = map (\<lambda>i. task_id (tasks ! i)) (map fst settled) \<and>
   list_all (\<lambda>r. status r = Success \<and> error r = None \<or> status r = Failure \<and> error r \<noteq> None)
     (List.map_filter (\<lambda>result. result) (fulfilled settled))"
proof (induction settled)
  case Nil
  then show ?case by simp
next
  case (Cons p settled)
  obtain i r where p: "p = (i, r)" by (cases p)
  from Cons.prems p obtain res where res: "r = Inr (Some res)" "outcome_of (tasks ! i) res"
    by (auto simp: settled_for_def split: sum.splits option.splits)
  from Cons have ih:
    "map taskId (List.map_filter (\<lambda>result. result) (fulfilled settled))
       = map (\<lambda>i. task_id (tasks ! i)) (map fst settled)"
    "list_all (\<lambda>r. status r = Success \<and> error r = None \<or> status r = Failure \<and> error r \<noteq> None)
       (List.map_filter (\<lambda>result. result) (fulfilled settled))"
    by simp_all
  show ?case
    using p res ih by (simp add: outcome_of_def)
qed

lemma positions_sorted:
  assumes "map fst settled = map fst (completion_order finish tasks)"
  shows "map fst (sort_key fst settled) = [0..<length tasks]"
proof -
  have d0: "distinct (map fst (completion_order finish tasks))"
    by (simp add: completion_order_def distinct_map) (metis distinct_enumerate distinct_map map_fst_enumerate distinct_upt)
  have s0: "set (map fst (completion_order finish tasks)) = {0..<length tasks}"
    by (simp add: completion_order_def) (metis map_fst_enumerate set_map set_upt add_0 atLeastLessThan_upt)
  have "distinct (map fst settled)" "set (map fst settled) = {0..<length tasks}"
    using assms d0 s0 by simp_all
  then have "distinct (map fst (sort_key fst settled))" "set (map fst (sort_key fst settled)) = {0..<length tasks}"
    by (simp_all add: distinct_map)
  moreover have "sorted (map fst (sort_key fst settled))"
    by (rule sorted_sort_key)
  ultimately show ?thesis
    by (intro sorted_distinct_set_unique) simp_all
qed

text \<open>
  What holds when every rejection is an \<^verbatim>\<open>Error\<close> object and the executions of a batch
  run one after another, in any order of completion: \<^verbatim>\<open>executeParallel\<close> resolves to one
  outcome per task, the i-th outcome carrying the id of the i-th task, and
  \<^verbatim>\<open>executeTask\<close> resolves to an outcome of its task.
\<close>

lemma executeParallel_outcomes_in_input_order:
  "(\<exists>rs. fst (executeParallel E cfg finish tasks s) = Inr rs \<and>
         length rs = length tasks \<and>
         map taskId rs = map task_id tasks \<and>
         list_all (\<lambda>r. status r = Success \<and> error r = None \<or> status r = Failure \<and> error r \<noteq> None) rs) \<and>
   (\<exists>r. fst (executeTask E cfg task s) = Inr r \<and> outcome_of task r)"
proof -
  let ?queue = "completion_order finish tasks"
  obtain promises s' where run: "run_queue E cfg ?queue s = (promises, s')"
    by (cases "run_queue E cfg ?queue s")
  have "\<forall>q \<in> set ?queue. fst q < length tasks \<and> snd q = tasks ! fst q"
    by (simp add: completion_order_def in_set_enumerate_eq)
  from run_queue_settled [OF this, of E cfg s] run
  have pos: "map fst promises = map fst ?queue" and all: "\<forall>p \<in> set promises. settled_for tasks p"
    by simp_all
  have rej: "first_rejection promises = None"
    using all by (rule first_rejection_settled)
  let ?results = "fulfilled (sort_key fst promises)"
  let ?rs = "List.map_filter (\<lambda>result. result) ?results"
  have "\<forall>p \<in> set (sort_key fst promises). settled_for tasks p"
    using all by simp
  from fulfilled_settled [OF this]
  have ids: "map taskId ?rs = map (\<lambda>i. task_id (tasks ! i)) (map fst (sort_key fst promises))"
    and shape: "list_all (\<lambda>r. status r = Success \<and> error r = None \<or> status r = Failure \<and> error r \<noteq> None) ?rs"
    by simp_all
  have "map (\<lambda>i. task_id (tasks ! i)) [0..<length tasks] = map task_id (map ((!) tasks) [0..<length tasks])"
    by simp
  also have "\<dots> = map task_id tasks"
    by (simp only: map_nth)
  finally have ids': "map taskId ?rs = map task_id tasks"
    using ids positions_sorted [OF pos] by simp
  then have "length (map taskId ?rs) = length (map task_id tasks)"
    by simp
  then have len: "length ?rs = length tasks"
    by simp
  have "fst (executeParallel E cfg finish tasks s) = Inr ?rs"
    using run rej by (simp add: executeParallel_def promise_all_def)
  with len ids' shape have batch:
    "\<exists>rs. fst (executeParallel E cfg finish tasks s) = Inr rs \<and> length rs = length tasks \<and>
          map taskId rs = map task_id tasks \<and>
          list_all (\<lambda>r. status r = Success \<and> error r = None \<or> status r = Failure \<and> error r \<noteq> None) rs"
    by blast
  show ?thesis
    using batch executeTask_outcome [of E cfg task s] by blast
qed

lemma failure_from_ErrorObject [simp]:
  "failure_from task (ErrorObject m) d s = (Inr (failure task m d), s)"
  by (simp add: failure_from_def failure_with_def failure_def)

text \<open>
  For a provider that rejects with \<^verbatim>\<open>Error\<close> objects only, the functions of this section
  are the functions above.
\<close>

lemma processTask_any_provider_of:
  "processTask_any E (provider_of E) task s =
     (case processTask E task s of
        (Inl e, s') \<Rightarrow> (Inl (ErrorObject (message e)), s')
      | (Inr result, s') \<Rightarrow> (Inr result, s'))"
  by (auto simp: processTask_any_def processTask_def provider_of_def Let_def
        split: sum.split prod.split)

lemma retry_loop_any_provider_of:
  "retry_loop_any E (provider_of E) cfg task (ErrorObject (message err)) attempt s
     = retry_loop E cfg task err attempt s"
proof (induction E cfg task err attempt s rule: retry_loop.induct)
  case (1 E cfg task err attempt s)
  show ?case
  proof (cases "attempt \<le> retryAttempts cfg")
    case False
    then show ?thesis
      by (subst retry_loop_any.simps, subst retry_loop.simps) simp
  next
    case True
    obtain r s2 where p: "processTask E task (sleep E (1000 * attempt) s) = (r, s2)"
      by (cases "processTask E task (sleep E (1000 * attempt) s)")
    show ?thesis
    proof (cases r)
      case (Inr out)
      with True p show ?thesis
        by (subst retry_loop_any.simps, subst retry_loop.simps)
           (simp add: processTask_any_provider_of)
    next
      case (Inl e)
      show ?thesis
      proof (cases "attempt = retryAttempts cfg")
        case True
        with p Inl show ?thesis
          by (subst retry_loop_any.simps, subst retry_loop.simps)
             (simp add: processTask_any_provider_of)
      next
        case False
        from "1.IH" [OF True refl p [symmetric] Inl False]
        have "retry_loop_any E (provider_of E) cfg task (ErrorObject (message err)) (attempt + 1) s2
                = retry_loop E cfg task err (attempt + 1) s2" .
        with True p Inl False show ?thesis
          by (subst retry_loop_any.simps, subst retry_loop.simps)
             (simp add: processTask_any_provider_of)
      qed
    qed
  qed
qed

lemma executeTask_catch_any_provider_of:
  "executeTask_catch_any E (provider_of E) cfg task startTime (ErrorObject (message err)) s
     = executeTask_catch E cfg task startTime err s"
  by (simp add: executeTask_catch_any_def executeTask_catch_def retryTask_any_def retryTask_def
        retry_loop_any_provider_of)

lemma executeTask_any_provider_of:
  "executeTask_any E (provider_of E) cfg task s = executeTask E cfg task s"
  by (simp add: executeTask_any_def executeTask_def processTask_any_provider_of
        executeTask_catch_any_provider_of Let_def split: prod.split sum.split)

lemma processTask_any_not_nullish:
  assumes "never_nullish provider" and "processTask_any E provider task s = (Inl v, s')"
  shows "v \<noteq> NullValue \<and> v \<noteq> UndefinedValue"
proof (cases "getUserPrompt E task")
  case (Inl e)
  with assms(2) show ?thesis
    by (auto simp: processTask_any_def Let_def)
next
  case (Inr userPrompt)
  let ?c = "provider (Suc (chatCalls s) - 1) (getSystemPrompt (task_type task)) userPrompt"
  from assms(1) have "snd ?c \<noteq> Inl NullValue \<and> snd ?c \<noteq> Inl UndefinedValue"
    unfolding never_nullish_def by blast
  with Inr assms(2) show ?thesis
    by (auto simp: processTask_any_def Let_def split: prod.splits sum.splits)
qed

lemma failure_from_not_nullish:
  assumes "v \<noteq> NullValue \<and> v \<noteq> UndefinedValue"
  shows "\<exists>msg. failure_from task v d s = (Inr (failure_with task msg d), s)"
  using assms by (cases v) (auto simp: failure_from_def)

lemma retry_loop_any_resolves:
  assumes "never_nullish provider" and "err \<noteq> NullValue \<and> err \<noteq> UndefinedValue"
  shows "\<exists>r. fst (retry_loop_any E provider cfg task err attempt s) = Inr r \<and>
             taskId r = task_id task"
  using assms
proof (induction E provider cfg task err attempt s rule: retry_loop_any.induct)
  case (1 E provider cfg task err attempt s)
  show ?case
  proof (cases "attempt \<le> retryAttempts cfg")
    case False
    with failure_from_not_nullish [OF "1.prems"(2), of task 0 s] show ?thesis
      by (subst retry_loop_any.simps) (auto simp: failure_with_def)
  next
    case True
    obtain r s2 where p: "processTask_any E provider task (sleep E (1000 * attempt) s) = (r, s2)"
      by (cases "processTask_any E provider task (sleep E (1000 * attempt) s)")
    show ?thesis
    proof (cases r)
      case (Inr out)
      with True p show ?thesis
        by (subst retry_loop_any.simps) (simp add: success_def)
    next
      case (Inl v)
      have v: "v \<noteq> NullValue \<and> v \<noteq> UndefinedValue"
        using processTask_any_not_nullish [OF "1.prems"(1)] p Inl by blast
      show ?thesis
      proof (cases "attempt = retryAttempts cfg")
        case True
        with p Inl failure_from_not_nullish [OF v, of task 0 s2] show ?thesis
          by (subst retry_loop_any.simps) (auto simp: failure_with_def)
      next
        case False
        from "1.IH" [OF True refl p [symmetric] Inl False "1.prems"]
        have "\<exists>r. fst (retry_loop_any E provider cfg task err (attempt + 1) s2) = Inr r \<and>
                  taskId r = task_id task" .
        with True p Inl False show ?thesis
          by (subst retry_loop_any.simps) simp
      qed
    qed
  qed
qed

lemma executeTask_any_resolves:
  assumes "never_nullish provider"
  shows "\<exists>r. fst (executeTask_any E provider cfg task s) = Inr r \<and> taskId r = task_id task"
proof -
  have c: "\<exists>r. fst (executeTask_catch_any E provider cfg task st v s') = Inr r \<and>
                taskId r = task_id task"
    if "v \<noteq> NullValue \<and> v \<noteq> UndefinedValue" for st v s'
    using retry_loop_any_resolves [OF assms that, of E cfg task 1 s']
          failure_from_not_nullish [OF that, of task "now s' - st" s']
    by (auto simp: executeTask_catch_any_def retryTask_any_def failure_with_def Let_def)
  obtain d s1 where d: "resolveDependencies E cfg task s = (d, s1)"
    by (cases "resolveDependencies E cfg task s")
  obtain p s2 where p: "processTask_any E provider task s1 = (p, s2)"
    by (cases "processTask_any E provider task s1")
  show ?thesis
  proof (cases d)
    case (Inl e)
    with d c [of "ErrorObject (message e)" "now s" s1] show ?thesis
      by (simp add: executeTask_any_def)
  next
    case (Inr u)
    show ?thesis
    proof (cases p)
      case (Inl v)
      have "v \<noteq> NullValue \<and> v \<noteq> UndefinedValue"
        using processTask_any_not_nullish [OF assms] p Inl by blast
      from c [OF this, of "now s" s2] d p Inr Inl show ?thesis
        by (simp add: executeTask_any_def)
    next
      case (Inr out)
      with d p \<open>d = Inr u\<close> show ?thesis
        by (simp add: executeTask_any_def success_def)
    qed
  qed
qed

lemma thrown_body_without_retry:
  assumes "resolveDependencies E cfg task s = (Inr (), s1)"
      and "processTask_any E provider task s1 = (Inl v, s2)"
      and "retryOnFailure task \<noteq> Some True \<or> retryAttempts cfg \<le> 0"
  shows "executeTask_any E provider cfg task s = failure_from task v (now s2 - now s) s2"
  using assms by (auto simp: executeTask_any_def executeTask_catch_any_def Let_def)

text \<open>
  C4 at a provider whose calls reject with \<^verbatim>\<open>null\<close>. The \<^verbatim>\<open>catch\<close> block of
  \<^verbatim>\<open>executeTask\<close> builds the failure outcome with \<^verbatim>\<open>(error as Error).message\<close> (line 83);
  the read throws a TypeError inside the \<^verbatim>\<open>catch\<close> block, nothing catches it, and
  \<^verbatim>\<open>executeTask\<close> rejects. With \<^verbatim>\<open>retryOnFailure\<close> the same happens at line 151 after
  the third re-attempt (four calls of the body). In a batch the rejection makes
  \<^verbatim>\<open>Promise.all\<close>, and so \<^verbatim>\<open>executeParallel\<close>, reject: two tasks, no outcome.
\<close>

theorem C4_null_rejection_escapes:
  "fst (executeTask_any (ex_env (\<lambda>n. Inr ''{}'')) ex_null_provider (ex_cfg 1000 3)
          (ex_task ''t1'' None None) (init 0))
     = Inl (Error ''Cannot read properties of null (reading 'message')'') \<and>
   fst (executeTask_any (ex_env (\<lambda>n. Inr ''{}'')) ex_null_provider (ex_cfg 1000 3)
          (ex_task ''t1'' None (Some True)) (init 0))
     = Inl (Error ''Cannot read properties of null (reading 'message')'') \<and>
   bodyCalls (snd (executeTask_any (ex_env (\<lambda>n. Inr ''{}'')) ex_null_provider (ex_cfg 1000 3)
                     (ex_task ''t1'' None (Some True)) (init 0))) = 4 \<and>
   fst (executeParallel_any (ex_env (\<lambda>n. Inr ''{}'')) ex_null_provider (ex_cfg 1000 3) (\<lambda>i. i)
          [ex_task ''t1'' None None, ex_task ''t2'' None None] (init 0))
     = Inl (Error ''Cannot read properties of null (reading 'message')'')"
  by (simp add: executeParallel_any_def completion_order_def queue_add_def promise_all_def
        executeTask_any_def executeTask_catch_any_def retryTask_any_def retry_loop_any.simps
        failure_from_def resolveDependencies_def processTask_any_def getUserPrompt_def
        sleep_def ex_null_provider_def ex_env_def ex_cfg_def ex_task_def init_def Let_def)

section \<open>Claim C5: the concurrency bound\<close>

lemma sleep_alone:
  assumes "\<forall>t results. interfere E t results = results"
  shows "sleep E ms s = s\<lparr>sleeps := sleeps s @ [ms], now := now s + ms + int (timer_lag E (now s))\<rparr>"
  using assms by (simp add: sleep_def Let_def)

lemma processTask_alone:
  assumes "\<forall>t results. interfere E t results = results"
  shows "processTask E task s =
           (case call_provider E task s of
              (Inl e, s0) \<Rightarrow> (Inl e, s0)
            | (Inr (t, Inl m), s0) \<Rightarrow> (Inl (Error m), s0\<lparr>now := t\<rparr>)
            | (Inr (t, Inr content), s0) \<Rightarrow>
                (Inr (parseTaskResult E (task_type task) content), s0\<lparr>now := t\<rparr>))"
  using assms
  by (auto simp: processTask_def call_provider_def Let_def split: sum.split prod.split)

lemma solo_retry:
  assumes "\<forall>t results. interfere E t results = results"
  shows "solo E cfg task (arm_retry E cfg task err attempt s) (retry_loop E cfg task err attempt s)"
  using assms
proof (induction E cfg task err attempt s rule: retry_loop.induct)
  case (1 E cfg task err attempt s)
  note alone = "1.prems"
  show ?case
  proof (cases "attempt \<le> retryAttempts cfg")
    case False
    then show ?thesis
      by (subst retry_loop.simps) (simp add: arm_retry_def solo.finished)
  next
    case True
    let ?t = "now s + 1000 * attempt + int (timer_lag E (now s))"
    let ?s1 = "sleep E (1000 * attempt) s"
    have s1: "?s1 = s\<lparr>sleeps := sleeps s @ [1000 * attempt], now := ?t\<rparr>"
      by (rule sleep_alone [OF alone])
    have arm: "arm_retry E cfg task err attempt s
                 = (AtBackoff err attempt ?t, s\<lparr>sleeps := sleeps s @ [1000 * attempt]\<rparr>)"
      using True by (simp add: arm_retry_def)
    obtain c s0 where cp: "call_provider E task ?s1 = (c, s0)"
      by (cases "call_provider E task ?s1")
    have step1: "resume E cfg task (AtBackoff err attempt ?t)
                   (s\<lparr>sleeps := sleeps s @ [1000 * attempt]\<rparr>\<lparr>now := ?t\<rparr>)
                 = (case c of Inl e \<Rightarrow> on_retry_throw E cfg task err attempt e s0
                    | Inr (t', reply) \<Rightarrow> (AtRetryChat err attempt t' reply, s0))"
      using cp s1 by (simp split: sum.split prod.split)
    \<comment> \<open>what the loop does after the body has thrown \<open>e\<close> in state \<open>s2\<close>\<close>
    have thrown: "solo E cfg task (on_retry_throw E cfg task err attempt e s2)
                    (retry_loop E cfg task err attempt s)"
      if p: "processTask E task ?s1 = (Inl e, s2)" for e s2
    proof (cases "attempt = retryAttempts cfg")
      case True
      then have "retry_loop E cfg task err attempt s = (Inr (failure task (message e) 0), s2)"
        using p by (subst retry_loop.simps) simp
      with True show ?thesis
        by (simp add: on_retry_throw_def solo.finished)
    next
      case False
      have "retry_loop E cfg task err attempt s = retry_loop E cfg task err (attempt + 1) s2"
        using False True p by (subst retry_loop.simps) simp
      with "1.IH" [OF True refl p [symmetric] refl False alone] False show ?thesis
        by (simp add: on_retry_throw_def)
    qed
    have "solo E cfg task
            (case c of Inl e \<Rightarrow> on_retry_throw E cfg task err attempt e s0
             | Inr (t', reply) \<Rightarrow> (AtRetryChat err attempt t' reply, s0))
            (retry_loop E cfg task err attempt s)"
    proof (cases c)
      case (Inl e)
      with cp have "processTask E task ?s1 = (Inl e, s0)"
        by (simp add: processTask_alone [OF alone])
      from thrown [OF this] Inl show ?thesis by simp
    next
      case (Inr tr)
      obtain t' reply where tr: "tr = (t', reply)" by (cases tr)
      have "solo E cfg task (AtRetryChat err attempt t' reply, s0) (retry_loop E cfg task err attempt s)"
      proof (cases reply)
        case (Inl m)
        with cp Inr tr have "processTask E task ?s1 = (Inl (Error m), s0\<lparr>now := t'\<rparr>)"
          by (simp add: processTask_alone [OF alone])
        from thrown [OF this] Inl show ?thesis
          by (intro solo.resumed_at [where t = t']) simp_all
      next
        case (Inr content)
        with cp \<open>c = Inr tr\<close> tr
        have "processTask E task ?s1
                = (Inr (parseTaskResult E (task_type task) content), s0\<lparr>now := t'\<rparr>)"
          by (simp add: processTask_alone [OF alone])
        then have "retry_loop E cfg task err attempt s
                     = (Inr (success task (parseTaskResult E (task_type task) content) 0), s0\<lparr>now := t'\<rparr>)"
          using True by (subst retry_loop.simps) simp
        with Inr show ?thesis
          by (intro solo.resumed_at [where t = t']) (simp_all add: solo.finished)
      qed
      with Inr tr show ?thesis by simp
    qed
    with step1 have "solo E cfg task
            (resume E cfg task (AtBackoff err attempt ?t)
               (s\<lparr>sleeps := sleeps s @ [1000 * attempt]\<rparr>\<lparr>now := ?t\<rparr>))
            (retry_loop E cfg task err attempt s)"
      by simp
    then show ?thesis
      unfolding arm by (intro solo.resumed_at [where t = ?t]) simp_all
  qed
qed

lemma solo_catch:
  assumes "\<forall>t results. interfere E t results = results"
  shows "solo E cfg task (on_throw E cfg task startTime err s)
           (executeTask_catch E cfg task startTime err s)"
  using solo_retry [OF assms, of cfg task err 1 s]
  by (simp add: on_throw_def executeTask_catch_def retryTask_def solo.finished)

lemma solo_body:
  assumes "\<forall>t results. interfere E t results = results"
  shows "solo E cfg task (call_body E cfg task startTime s) (after_wait E cfg task startTime s)"
proof -
  obtain c s0 where cp: "call_provider E task s = (c, s0)"
    by (cases "call_provider E task s")
  show ?thesis
  proof (cases c)
    case (Inl e)
    with cp show ?thesis
      using solo_catch [OF assms, of cfg task startTime e s0]
      by (simp add: call_body_def after_wait_def processTask_alone [OF assms])
  next
    case (Inr tr)
    obtain t reply where tr: "tr = (t, reply)" by (cases tr)
    have "solo E cfg task (AtChat startTime t reply, s0) (after_wait E cfg task startTime s)"
    proof (cases reply)
      case (Inl m)
      with cp Inr tr
      have "after_wait E cfg task startTime s
              = executeTask_catch E cfg task startTime (Error m) (s0\<lparr>now := t\<rparr>)"
        by (simp add: after_wait_def processTask_alone [OF assms])
      with Inl solo_catch [OF assms, of cfg task startTime "Error m" "s0\<lparr>now := t\<rparr>"]
      show ?thesis
        by (intro solo.resumed_at [where t = t]) simp_all
    next
      case (Inr content)
      with cp \<open>c = Inr tr\<close> tr
      have "after_wait E cfg task startTime s
              = (Inr (success task (parseTaskResult E (task_type task) content) (t - startTime)),
                 s0\<lparr>now := t\<rparr>)"
        by (simp add: after_wait_def processTask_alone [OF assms])
      with Inr show ?thesis
        by (intro solo.resumed_at [where t = t]) (simp_all add: solo.finished)
    qed
    with cp Inr tr show ?thesis
      by (simp add: call_body_def)
  qed
qed

lemma solo_poll:
  assumes "\<forall>t results. interfere E t results = results"
  shows "solo E cfg task (poll E cfg task startTime deps s)
           (case wait_loop E (timeout cfg) startTime deps s of
              (Inl err, s1) \<Rightarrow> executeTask_catch E cfg task startTime err s1
            | (Inr u, s1) \<Rightarrow> after_wait E cfg task startTime s1)"
  using assms
proof (induction E "timeout cfg" startTime deps s rule: wait_loop.induct)
  case (1 E startTime deps s)
  note alone = "1.prems"
  show ?case
  proof (cases "now s - startTime < timeout cfg")
    case False
    then have "wait_loop E (timeout cfg) startTime deps s
                 = (Inl (Error ''Dependency timeout: Some dependencies did not complete in time''), s)"
      by (subst wait_loop.simps) simp
    with False solo_catch [OF alone] show ?thesis
      by (simp add: poll_def)
  next
    case True
    show ?thesis
    proof (cases "allComplete (taskResults s) deps")
      case yes: True
      with True have "wait_loop E (timeout cfg) startTime deps s = (Inr (), s)"
        by (subst wait_loop.simps) simp
      with True yes solo_body [OF alone] show ?thesis
        by (simp add: poll_def)
    next
      case no: False
      let ?t = "now s + 100 + int (timer_lag E (now s))"
      have s1: "sleep E 100 s = s\<lparr>sleeps := sleeps s @ [100], now := ?t\<rparr>"
        by (rule sleep_alone [OF alone])
      have w: "wait_loop E (timeout cfg) startTime deps s
                 = wait_loop E (timeout cfg) startTime deps (sleep E 100 s)"
        using True no by (subst wait_loop.simps) simp
      have p: "poll E cfg task startTime deps s
                 = (AtPoll startTime deps ?t, s\<lparr>sleeps := sleeps s @ [100]\<rparr>)"
        using True no by (simp add: poll_def)
      from "1.hyps" [OF True no alone] s1
      have "solo E cfg task
              (resume E cfg task (AtPoll startTime deps ?t) (s\<lparr>sleeps := sleeps s @ [100]\<rparr>\<lparr>now := ?t\<rparr>))
              (case wait_loop E (timeout cfg) startTime deps (sleep E 100 s) of
                 (Inl err, s1) \<Rightarrow> executeTask_catch E cfg task startTime err s1
               | (Inr u, s1) \<Rightarrow> after_wait E cfg task startTime s1)"
        by simp
      then show ?thesis
        unfolding p w by (intro solo.resumed_at [where t = ?t]) simp_all
    qed
  qed
qed

text \<open>
  When nothing else runs, the execution by suspension points settles with the result,
  and in the state, that \<open>executeTask\<close> computes.
\<close>

lemma solo_executeTask:
  assumes "\<forall>t results. interfere E t results = results"
  shows "solo E cfg task (start E cfg task s) (executeTask E cfg task s)"
proof (cases "dependencies task")
  case None
  then have "executeTask E cfg task s = after_wait E cfg task (now s) s"
    by (simp add: executeTask_def resolveDependencies_def after_wait_def Let_def)
  with None solo_body [OF assms] show ?thesis
    by (simp add: start_def)
next
  case (Some deps)
  then have "executeTask E cfg task s
               = (case wait_loop E (timeout cfg) (now s) deps s of
                    (Inl err, s1) \<Rightarrow> executeTask_catch E cfg task (now s) err s1
                  | (Inr u, s1) \<Rightarrow> after_wait E cfg task (now s) s1)"
    by (simp add: executeTask_def resolveDependencies_def waitForDependencies_def after_wait_def
          Let_def split: prod.split sum.split)
  with Some solo_poll [OF assms] show ?thesis
    by (simp add: start_def)
qed

lemma filter_update_le:
  assumes "i < length xs" and "P y \<Longrightarrow> P (xs ! i)"
  shows "length (filter P (xs[i := y])) \<le> length (filter P xs)"
  using assms
proof (induction xs arbitrary: i)
  case Nil
  then show ?case by simp
next
  case (Cons x xs)
  show ?case
  proof (cases i)
    case 0
    with Cons.prems show ?thesis by auto
  next
    case (Suc j)
    with Cons.prems have "j < length xs" "P y \<Longrightarrow> P (xs ! j)"
      by simp_all
    from Cons.IH [OF this] Suc show ?thesis by simp
  qed
qed

lemma filter_stronger_le:
  assumes "\<And>x. P x \<Longrightarrow> Q x"
  shows "length (filter P xs) \<le> length (filter Q xs)"
  using assms by (induction xs) auto

lemma in_body_not_settled: "in_body p \<Longrightarrow> \<not> is_settled p"
  by (cases p) simp_all

lemma due_not_settled: "due p = Some t \<Longrightarrow> \<not> is_settled p"
  by (cases p) simp_all

lemma pooled_bodies_le_running: "pooled_bodies_in_flight sys \<le> pool_running sys"
  unfolding pooled_bodies_in_flight_def pool_running_def
  by (rule filter_stronger_le) (simp add: in_body_not_settled)

lemma pool_running_shared [simp]: "pool_running (sys\<lparr>shared := s\<rparr>) = pool_running sys"
  by (simp add: pool_running_def)

lemma pool_running_waiting [simp]: "pool_running (sys\<lparr>waiting := w\<rparr>) = pool_running sys"
  by (simp add: pool_running_def)

text \<open>The pool never has more than \<^verbatim>\<open>maxConcurrent\<close> unsettled executions.\<close>

lemma admit_bound:
  assumes "int (pool_running sys) \<le> max 0 (maxConcurrent cfg)"
  shows "int (pool_running (admit E cfg tasks sys)) \<le> max 0 (maxConcurrent cfg)"
  using assms
proof (induction tasks arbitrary: sys)
  case Nil
  then show ?case by simp
next
  case (Cons task tasks)
  show ?case
  proof (cases "int (pool_running sys) < maxConcurrent cfg")
    case False
    with Cons.prems show ?thesis by simp
  next
    case True
    obtain p s' where st: "start E cfg task (shared sys) = (p, s')"
      by (cases "start E cfg task (shared sys)")
    let ?sys = "sys\<lparr>shared := s',
                      executions := executions sys @ [\<lparr>exec_task = task, exec_point = p, pooled = True\<rparr>]\<rparr>"
    have "pool_running ?sys \<le> Suc (pool_running sys)"
      by (simp add: pool_running_def)
    with True have "int (pool_running ?sys) \<le> max 0 (maxConcurrent cfg)"
      by simp
    from Cons.IH [OF this] True st show ?thesis
      by simp
  qed
qed

lemma resume_execution_bound:
  assumes "int (pool_running sys) \<le> max 0 (maxConcurrent cfg)"
  shows "int (pool_running (resume_execution E cfg i sys)) \<le> max 0 (maxConcurrent cfg)"
proof (cases "can_resume sys i")
  case False
  with assms show ?thesis
    by (simp add: resume_execution_def)
next
  case True
  let ?x = "executions sys ! i"
  obtain p s' where r: "resume E cfg (exec_task ?x) (exec_point ?x) (shared sys) = (p, s')"
    by (cases "resume E cfg (exec_task ?x) (exec_point ?x) (shared sys)")
  let ?sys = "sys\<lparr>shared := s', executions := (executions sys)[i := ?x\<lparr>exec_point := p\<rparr>]\<rparr>"
  from True have i: "i < length (executions sys)" and ns: "\<not> is_settled (exec_point ?x)"
    by (auto simp: can_resume_def due_not_settled split: option.splits)
  have "length (filter (\<lambda>x. pooled x \<and> \<not> is_settled (exec_point x))
                  ((executions sys)[i := ?x\<lparr>exec_point := p\<rparr>]))
          \<le> length (filter (\<lambda>x. pooled x \<and> \<not> is_settled (exec_point x)) (executions sys))"
    using i by (rule filter_update_le) (simp add: ns)
  then have le: "pool_running ?sys \<le> pool_running sys"
    by (simp add: pool_running_def)
  with assms have b: "int (pool_running ?sys) \<le> max 0 (maxConcurrent cfg)"
    by simp
  show ?thesis
    using True r b admit_bound [OF b, of E "waiting ?sys"]
    by (simp add: resume_execution_def Let_def)
qed

lemma sys_step_bound:
  assumes "sys_step E cfg sys sys'" and "int (pool_running sys) \<le> max 0 (maxConcurrent cfg)"
  shows "int (pool_running sys') \<le> max 0 (maxConcurrent cfg)"
  using assms(1)
proof (cases rule: sys_step.cases)
  case (called task)
  with assms(2) show ?thesis
    by (simp add: call_executeTask_def pool_running_def split: prod.split)
next
  case (submitted tasks)
  with admit_bound [OF assms(2)] show ?thesis
    by (simp add: call_executeParallel_def)
next
  case (ticked d)
  with assms(2) show ?thesis
    by (simp add: tick_def)
next
  case (resumed i)
  with resume_execution_bound [OF assms(2)] show ?thesis
    by simp
next
  case (stored tid result)
  with assms(2) show ?thesis
    by simp
qed

lemma sys_reachable_bound:
  "sys_reachable E cfg sys \<Longrightarrow> int (pool_running sys) \<le> max 0 (maxConcurrent cfg)"
proof (induction rule: sys_reachable.induct)
  case (at_start t)
  show ?case
    by (simp add: initial_def pool_running_def)
next
  case (later sys sys')
  then show ?case
    using sys_step_bound by blast
qed

text \<open>
  C5 says that the bound holds for single-task execution too. \<^verbatim>\<open>executeTask\<close> does not
  use \<^verbatim>\<open>taskQueue\<close>: under \<^verbatim>\<open>maxConcurrent: 1\<close>, two calls of \<^verbatim>\<open>executeTask\<close> for tasks
  without prerequisites leave both executions suspended in the provider's call, so two
  task bodies are in flight.
\<close>

theorem C5_direct_calls_counterexample:
  "sys_reachable (ex_env (\<lambda>n. Inr ''{}'')) (ex_cfg 1000 3)
     (call_executeTask (ex_env (\<lambda>n. Inr ''{}'')) (ex_cfg 1000 3) (ex_task ''t2'' None None)
        (call_executeTask (ex_env (\<lambda>n. Inr ''{}'')) (ex_cfg 1000 3) (ex_task ''t1'' None None)
           (initial 0))) \<and>
   maxConcurrent (ex_cfg 1000 3) = 1 \<and>
   bodies_in_flight
     (call_executeTask (ex_env (\<lambda>n. Inr ''{}'')) (ex_cfg 1000 3) (ex_task ''t2'' None None)
        (call_executeTask (ex_env (\<lambda>n. Inr ''{}'')) (ex_cfg 1000 3) (ex_task ''t1'' None None)
           (initial 0))) = 2"
proof -
  have "sys_reachable (ex_env (\<lambda>n. Inr ''{}'')) (ex_cfg 1000 3)
     (call_executeTask (ex_env (\<lambda>n. Inr ''{}'')) (ex_cfg 1000 3) (ex_task ''t2'' None None)
        (call_executeTask (ex_env (\<lambda>n. Inr ''{}'')) (ex_cfg 1000 3) (ex_task ''t1'' None None)
           (initial 0 :: (unit, unit) system)))"
    by (intro sys_reachable.later [OF _ sys_step.called] sys_reachable.at_start)
  moreover have "bodies_in_flight
     (call_executeTask (ex_env (\<lambda>n. Inr ''{}'')) (ex_cfg 1000 3) (ex_task ''t2'' None None)
        (call_executeTask (ex_env (\<lambda>n. Inr ''{}'')) (ex_cfg 1000 3) (ex_task ''t1'' None None)
           (initial 0))) = 2"
    by (simp add: bodies_in_flight_def call_executeTask_def start_def call_body_def
          call_provider_def getUserPrompt_def ex_env_def ex_task_def initial_def init_def Let_def)
  ultimately show ?thesis
    by (simp add: ex_cfg_def)
qed

text \<open>
  C5, amended: at every instant of a run, the number of task bodies in flight for tasks
  submitted through \<^verbatim>\<open>executeParallel\<close> never exceeds \<^verbatim>\<open>config.maxConcurrent\<close>, and
  neither does the number of unsettled executions the pool has started. Executions
  started by \<^verbatim>\<open>executeTask\<close> directly (or through \<^verbatim>\<open>assignTask\<close>) do not pass the pool
  and are not bounded.
\<close>

theorem C5_pool_bounds_batches:
  assumes "sys_reachable E cfg sys" and "1 \<le> maxConcurrent cfg"
  shows "int (pooled_bodies_in_flight sys) \<le> maxConcurrent cfg \<and>
         int (pool_running sys) \<le> maxConcurrent cfg"
proof -
  have "int (pool_running sys) \<le> max 0 (maxConcurrent cfg)"
    using assms(1) by (rule sys_reachable_bound)
  with assms(2) have "int (pool_running sys) \<le> maxConcurrent cfg"
    by simp
  moreover have "int (pooled_bodies_in_flight sys) \<le> int (pool_running sys)"
    using pooled_bodies_le_running [of sys] by simp
  ultimately show ?thesis
    by simp
qed

theorem C5_pool_bounds_batches_witness:
  "int (pooled_bodies_in_flight ex_batch) \<le> maxConcurrent (ex_cfg 1000 3) \<and>
   int (pool_running ex_batch) \<le> maxConcurrent (ex_cfg 1000 3) \<and>
   pooled_bodies_in_flight ex_batch = 1 \<and>
   map task_id (waiting ex_batch) = [''t2'', ''t3'']"
proof -
  have r: "sys_reachable (ex_env (\<lambda>n. Inr ''{}'')) (ex_cfg 1000 3) ex_batch"
    unfolding ex_batch_def
    by (intro sys_reachable.later [OF _ sys_step.submitted] sys_reachable.at_start)
  have c: "1 \<le> maxConcurrent (ex_cfg 1000 3)"
    by (simp add: ex_cfg_def)
  have v: "pooled_bodies_in_flight ex_batch = 1 \<and> map task_id (waiting ex_batch) = [''t2'', ''t3'']"
    by (simp add: ex_batch_def pooled_bodies_in_flight_def call_executeParallel_def pool_running_def
          start_def call_body_def call_provider_def getUserPrompt_def
          ex_env_def ex_cfg_def ex_task_def initial_def init_def Let_def)
  show ?thesis
    using C5_pool_bounds_batches [OF r c] v by simp
qed

section \<open>Claim C6: a reply that is not JSON\<close>

text \<open>
  C6 says that a reply that \<^verbatim>\<open>JSON.parse\<close> rejects makes the attempt fail. In the code
  \<^verbatim>\<open>parseTaskResult\<close> catches the SyntaxError and returns \<^verbatim>\<open>{ raw: content }\<close>: here a
  task that did not opt into retry gets the reply \<^verbatim>\<open>not json\<close>, and its outcome is a
  success whose output is the raw text.
\<close>

theorem C6_unparsable_reply_counterexample:
  "json_parse (ex_env (\<lambda>n. Inr ''not json'')) ''not json'' = None \<and>
   fst (executeTask (ex_env (\<lambda>n. Inr ''not json'')) (ex_cfg 1000 3) (ex_task ''t1'' None None) (init 0))
     = Inr \<lparr>taskId = ''t1'', status = Success, task_output = Raw ''not json'', error = None,
            metrics = Some \<lparr>duration = 10, tokensUsed = None, filesModified = None\<rparr>\<rparr>"
  by (simp add: executeTask_def resolveDependencies_def processTask_def getUserPrompt_def
        parseTaskResult_def success_def ex_env_def ex_task_def init_def Let_def)

text \<open>
  C6, amended: when the provider's call succeeds and the content is not valid JSON,
  parsing does not fail: \<^verbatim>\<open>parseTaskResult\<close> returns \<^verbatim>\<open>{ raw: content }\<close>, and a task whose
  dependency phase passed returns a success outcome with that output and no error,
  after exactly one call of its body (no retry), whatever \<^verbatim>\<open>retryOnFailure\<close> is.
\<close>

theorem C6_unparsable_reply_succeeds:
  assumes "fst (resolveDependencies E cfg task s) = Inr ()"
      and "getUserPrompt E task = Inr userPrompt"
      and "chat E (chatCalls s) (getSystemPrompt (task_type task)) userPrompt = (lat, Inr content)"
      and "json_parse E content = None"
  shows "parseTaskResult E (task_type task) content = Raw content \<and>
         (\<exists>r. fst (executeTask E cfg task s) = Inr r \<and> status r = Success \<and>
              task_output r = Raw content \<and> error r = None) \<and>
         bodyCalls (snd (executeTask E cfg task s)) = Suc (bodyCalls s)"
proof -
  obtain s1 where d: "resolveDependencies E cfg task s = (Inr (), s1)"
    using assms(1) by (cases "resolveDependencies E cfg task s") simp
  have c: "chatCalls s1 = chatCalls s"
    using resolveDependencies_frame [of E cfg task s] d by simp
  have raw: "parseTaskResult E (task_type task) content = Raw content"
    using assms(4) by (simp add: parseTaskResult_def)
  have "fst (processTask E task s1) = Inr (Raw content)"
    using processTask_reply [of E task userPrompt s1 lat content] assms(2,3) c raw by simp
  then obtain s2 where p: "processTask E task s1 = (Inr (Raw content), s2)"
    by (cases "processTask E task s1") simp
  have b: "bodyCalls s2 = Suc (bodyCalls s)"
    using processTask_bodyCalls [of E task s1] resolveDependencies_frame [of E cfg task s] d p
    by simp
  from d p have "executeTask E cfg task s = (Inr (success task (Raw content) (now s2 - now s)), s2)"
    by (simp add: executeTask_def)
  then show ?thesis
    using raw b by (simp add: success_def)
qed

theorem C6_unparsable_reply_succeeds_witness:
  "parseTaskResult (ex_env (\<lambda>n. Inr ''not json'')) Analyze ''not json'' = Raw ''not json'' \<and>
   (\<exists>r. fst (executeTask (ex_env (\<lambda>n. Inr ''not json'')) (ex_cfg 1000 3)
              (ex_task ''t1'' None (Some True)) (init 0)) = Inr r \<and>
        status r = Success \<and> task_output r = Raw ''not json'' \<and> error r = None) \<and>
   bodyCalls (snd (executeTask (ex_env (\<lambda>n. Inr ''not json'')) (ex_cfg 1000 3)
                     (ex_task ''t1'' None (Some True)) (init 0)))
     = Suc (bodyCalls (init 0 :: (unit, unit) state))"
proof -
  have 1: "fst (resolveDependencies (ex_env (\<lambda>n. Inr ''not json'')) (ex_cfg 1000 3)
              (ex_task ''t1'' None (Some True)) (init 0)) = Inr ()"
    by (simp add: resolveDependencies_def ex_task_def)
  have 2: "getUserPrompt (ex_env (\<lambda>n. Inr ''not json'')) (ex_task ''t1'' None (Some True))
             = Inr (''Task: x'' @ [CHR 0x0A, CHR 0x0A] @ ''Input:'' @ [CHR 0x0A] @ ''{}'')"
    by (simp add: getUserPrompt_def ex_env_def ex_task_def)
  have 3: "chat (ex_env (\<lambda>n. Inr ''not json'')) (chatCalls (init 0 :: (unit, unit) state))
             (getSystemPrompt (task_type (ex_task ''t1'' None (Some True))))
             (''Task: x'' @ [CHR 0x0A, CHR 0x0A] @ ''Input:'' @ [CHR 0x0A] @ ''{}'')
           = (10, Inr ''not json'')"
    by (simp add: ex_env_def)
  have 4: "json_parse (ex_env (\<lambda>n. Inr ''not json'')) ''not json'' = None"
    by (simp add: ex_env_def)
  show ?thesis
    using C6_unparsable_reply_succeeds [OF 1 2 3 4] by (simp add: ex_task_def)
qed

section \<open>Claim C7: a failed prerequisite does not end the wait early\<close>

lemma wait_loop_blocked:
  assumes "d \<in> set deps"
      and "\<forall>t results. interfere E t results d = results d"
      and "taskResults s d = Some r"
      and "status r \<noteq> Success"
  shows "fst (wait_loop E m st deps s)
           = Inl (Error ''Dependency timeout: Some dependencies did not complete in time'') \<and>
         m \<le> now (snd (wait_loop E m st deps s)) - st \<and>
         taskResults (snd (wait_loop E m st deps s)) d = Some r \<and>
         (\<exists>k. sleeps (snd (wait_loop E m st deps s)) = sleeps s @ replicate k 100)"
  using assms
proof (induction E m st deps s rule: wait_loop.induct)
  case (1 E m st deps s)
  have "\<not> (case taskResults s d of None \<Rightarrow> False | Some r \<Rightarrow> status r = Success)"
    using "1.prems"(3,4) by simp
  then have nc: "\<not> allComplete (taskResults s) deps"
    using "1.prems"(1) unfolding allComplete_def list_all_iff by blast
  show ?case
  proof (cases "now s - st < m")
    case False
    have "sleeps s = sleeps s @ replicate 0 100" by simp
    then have "\<exists>k. sleeps s = sleeps s @ replicate k 100" by blast
    with False "1.prems"(3) show ?thesis
      by (subst (1 2 3 4) wait_loop.simps) simp
  next
    case True
    have keep: "taskResults (sleep E 100 s) d = Some r"
      using "1.prems"(2,3) by (simp add: sleep_taskResults)
    note ih = "1.IH" [OF True nc "1.prems"(1,2) keep "1.prems"(4)]
    from ih obtain k where
      k: "sleeps (snd (wait_loop E m st deps (sleep E 100 s))) = sleeps (sleep E 100 s) @ replicate k 100"
      by blast
    then have "sleeps (snd (wait_loop E m st deps (sleep E 100 s))) = sleeps s @ replicate (Suc k) 100"
      by simp
    then have ex: "\<exists>k. sleeps (snd (wait_loop E m st deps (sleep E 100 s))) = sleeps s @ replicate k 100"
      by blast
    have unf: "wait_loop E m st deps s = wait_loop E m st deps (sleep E 100 s)"
      using True nc by (subst wait_loop.simps) simp
    show ?thesis
      unfolding unf using ih ex by blast
  qed
qed

text \<open>
  C7: when a prerequisite is recorded as failed and nothing overwrites its entry, the
  wait does not return success and does not fail early: it ends with the
  dependency-timeout error, at an instant at which the whole window \<^verbatim>\<open>config.timeout\<close>
  has elapsed since the wait began, having slept the polling interval of 100 ms each
  time.
\<close>

theorem C7_failed_prerequisite_waits_out_timeout:
  assumes "d \<in> set deps"
      and "taskResults s d = Some r"
      and "status r = Failure"
      and "\<forall>t results. interfere E t results d = results d"
  shows "fst (waitForDependencies E cfg deps s)
           = Inl (Error ''Dependency timeout: Some dependencies did not complete in time'') \<and>
         timeout cfg \<le> now (snd (waitForDependencies E cfg deps s)) - now s \<and>
         (\<exists>k. sleeps (snd (waitForDependencies E cfg deps s)) = sleeps s @ replicate k 100)"
proof -
  have "status r \<noteq> Success"
    using assms(3) by simp
  from wait_loop_blocked [OF assms(1) assms(4) assms(2) this, of "timeout cfg" "now s"]
  show ?thesis
    by (simp add: waitForDependencies_def)
qed

theorem C7_failed_prerequisite_waits_out_timeout_witness:
  "fst (waitForDependencies (ex_env (\<lambda>n. Inr ''{}'')) (ex_cfg 250 3) [''t1''] ex_failed_store)
     = Inl (Error ''Dependency timeout: Some dependencies did not complete in time'') \<and>
   timeout (ex_cfg 250 3)
     \<le> now (snd (waitForDependencies (ex_env (\<lambda>n. Inr ''{}'')) (ex_cfg 250 3) [''t1''] ex_failed_store))
         - now ex_failed_store \<and>
   (\<exists>k. sleeps (snd (waitForDependencies (ex_env (\<lambda>n. Inr ''{}'')) (ex_cfg 250 3) [''t1''] ex_failed_store))
          = sleeps ex_failed_store @ replicate k 100)"
proof -
  have 1: "''t1'' \<in> set [''t1'']" by simp
  have 2: "taskResults ex_failed_store ''t1'' = Some (failure (ex_task ''t1'' None None) ''boom'' 10)"
    by (simp add: ex_failed_store_def)
  have 3: "status (failure (ex_task ''t1'' None None) ''boom'' 10 :: unit AgentResult) = Failure"
    by (simp add: failure_def)
  have 4: "\<forall>t results. interfere (ex_env (\<lambda>n. Inr ''{}'')) t results ''t1'' = results ''t1''"
    by (simp add: ex_env_def)
  show ?thesis
    using C7_failed_prerequisite_waits_out_timeout [OF 1 2 3 4] .
qed

section \<open>Claim C8: the invariant of the agent registry\<close>

lemma heap_ok_init: "heap_ok (init t)"
  by (simp add: heap_ok_def init_def)

lemma heap_ok_step:
  assumes "step E cfg s s'" and "heap_ok s"
  shows "heap_ok s'"
  using assms
proof (cases rule: step.cases)
  case (created rnd nm caps)
  with assms(2) show ?thesis
    by (auto simp: heap_ok_def createAgent_def Let_def less_Suc_eq)
next
  case (assigned agentId a task)
  with assms(2) show ?thesis
    by (auto simp: heap_ok_def assign_begin_def modify_def split: option.splits if_splits)
next
  case (executed task)
  with assms(2) executeTask_frame [of E cfg task s] show ?thesis
    by (simp add: heap_ok_def)
next
  case (recorded tid result)
  with assms(2) show ?thesis
    by (simp add: heap_ok_def record_result_def)
next
  case (released a)
  with assms(2) show ?thesis
    by (auto simp: heap_ok_def assign_end_def modify_def split: option.splits if_splits)
next
  case cleared
  with assms(2) show ?thesis
    by (simp add: heap_ok_def shutdown_def)
qed

lemma heap_ok_steps: "steps E cfg s s' \<Longrightarrow> heap_ok s \<Longrightarrow> heap_ok s'"
  by (induction rule: steps.induct) (auto intro: heap_ok_step)

lemma reachable_heap_ok: "reachable E cfg s \<Longrightarrow> heap_ok s"
  unfolding reachable_def using heap_ok_steps heap_ok_init by blast


lemma ex_registry_agents: "agents ex_registry ''agent-0-k3j9x0abc'' = Some 0"
  by (simp add: ex_registry_def createAgent_def init_def Let_def show_int_def digits.simps)

lemma ex_registry_heap:
  "heap ex_registry 0 = Some \<lparr>agent_id = ''agent-0-k3j9x0abc'', name = ''Reviewer'',
     agent_status = Idle, currentTask = None, capabilities = [''review'']\<rparr>"
  by (simp add: ex_registry_def createAgent_def init_def Let_def show_int_def digits.simps)

lemma ex_registry_reachable: "reachable E cfg ex_registry"
  unfolding reachable_def ex_registry_def
  using steps.after [OF steps.here step.created] by blast







section \<open>Claim C9: what a snapshot of the registry shows\<close>

text \<open>
  C9 at the registry with the one agent: a snapshot is taken while the agent is idle;
  then \<^verbatim>\<open>assignTask\<close> makes its two assignments to the agent object. Read through the
  snapshot, the agent is now busy with the task: the snapshot holds a reference to the
  object that \<^verbatim>\<open>assignTask\<close> mutates.
\<close>

theorem C9_snapshot_counterexample:
  "map_option agent_status (view (getStatus ex_registry) ex_registry ''agent-0-k3j9x0abc'')
     = Some Idle \<and>
   map_option agent_status
     (view (getStatus ex_registry) (assign_begin 0 (ex_task ''t1'' None None) ex_registry)
        ''agent-0-k3j9x0abc'')
     = Some Busy \<and>
   map_option currentTask
     (view (getStatus ex_registry) (assign_begin 0 (ex_task ''t1'' None None) ex_registry)
        ''agent-0-k3j9x0abc'')
     = Some (Some (ex_task ''t1'' None None))"
  by (simp add: view_def getStatus_def ex_registry_agents ex_registry_heap assign_begin_def
        modify_def)

lemma step_fixed_fields:
  assumes "step E cfg s s'" and "heap_ok s" and "heap s a = Some agent"
  shows "map_option fixed_fields (heap s' a) = Some (fixed_fields agent)"
  using assms(1)
proof (cases rule: step.cases)
  case (created rnd nm caps)
  from assms(2,3) have "a < nextAddr s"
    unfolding heap_ok_def by (metis option.distinct(1))
  with created assms(3) show ?thesis
    by (simp add: createAgent_def Let_def)
next
  case (assigned agentId b task)
  with assms(3) show ?thesis
    by (cases "a = b") (auto simp: assign_begin_def modify_def fixed_fields_def split: option.splits)
next
  case (executed task)
  with assms(3) executeTask_frame [of E cfg task s] show ?thesis
    by simp
next
  case (recorded tid result)
  with assms(3) show ?thesis
    by (simp add: record_result_def)
next
  case (released b)
  with assms(3) show ?thesis
    by (cases "a = b") (auto simp: assign_end_def modify_def fixed_fields_def split: option.splits)
next
  case cleared
  with assms(3) show ?thesis
    by (simp add: shutdown_def)
qed

lemma steps_fixed_fields:
  assumes "steps E cfg s s'" and "heap_ok s" and "heap s a = Some agent"
  shows "heap_ok s' \<and> map_option fixed_fields (heap s' a) = Some (fixed_fields agent)"
  using assms
proof (induction rule: steps.induct)
  case (here s)
  then show ?case by simp
next
  case (after s s' s'')
  then have ok: "heap_ok s'" and f: "map_option fixed_fields (heap s' a) = Some (fixed_fields agent)"
    by simp_all
  from f obtain agent' where a': "heap s' a = Some agent'" "fixed_fields agent' = fixed_fields agent"
    by (cases "heap s' a") auto
  from step_fixed_fields [OF after.hyps(2) ok a'(1)] a'(2) heap_ok_step [OF after.hyps(2) ok]
  show ?case by simp
qed

text \<open>
  C9, amended: \<^verbatim>\<open>getStatus\<close> returns a copy of the registry map that shares the agent
  objects. Whatever the orchestrator does after the snapshot (creating agents,
  assignments, shutdown), the snapshot has the entries it had, each with the id, name
  and capabilities it had; and an agent's status and current task are read from the
  shared object, so the assignments of a later \<^verbatim>\<open>assignTask\<close> show through the snapshot.
\<close>

theorem C9_snapshot_is_shallow:
  assumes "reachable E cfg s" and "steps E cfg s s'"
  shows "map_option fixed_fields (view (getStatus s) s' agentId)
           = map_option fixed_fields (view (getStatus s) s agentId) \<and>
         (\<forall>a task. agents s' agentId = Some a \<and> getStatus s agentId = Some a \<longrightarrow>
            map_option agent_status (view (getStatus s) (assign_begin a task s') agentId) = Some Busy \<and>
            map_option currentTask (view (getStatus s) (assign_begin a task s') agentId)
              = Some (Some task))"
proof -
  have ok: "heap_ok s"
    using assms(1) by (rule reachable_heap_ok)
  have ok': "heap_ok s'"
    using heap_ok_steps [OF assms(2) ok] .
  have 1: "map_option fixed_fields (view (getStatus s) s' agentId)
             = map_option fixed_fields (view (getStatus s) s agentId)"
  proof (cases "agents s agentId")
    case None
    then show ?thesis
      by (simp add: view_def getStatus_def)
  next
    case (Some a)
    with ok obtain agent where h: "heap s a = Some agent"
      unfolding heap_ok_def by (metis option.exhaust)
    from steps_fixed_fields [OF assms(2) ok h] Some h show ?thesis
      by (simp add: view_def getStatus_def)
  qed
  have 2: "map_option agent_status (view (getStatus s) (assign_begin a task s') agentId) = Some Busy \<and>
           map_option currentTask (view (getStatus s) (assign_begin a task s') agentId)
             = Some (Some task)"
    if "agents s' agentId = Some a \<and> getStatus s agentId = Some a" for a task
  proof -
    from that ok' obtain agent' where "heap s' a = Some agent'"
      unfolding heap_ok_def by (metis option.exhaust)
    with that show ?thesis
      by (simp add: view_def assign_begin_def modify_def)
  qed
  show ?thesis
    using 1 2 by blast
qed

theorem C9_snapshot_is_shallow_witness:
  "map_option fixed_fields
     (view (getStatus ex_registry)
        (shutdown (snd (createAgent ''zzzzzzzzz'' ''Tester'' [''test''] ex_registry)))
        ''agent-0-k3j9x0abc'')
     = map_option fixed_fields (view (getStatus ex_registry) ex_registry ''agent-0-k3j9x0abc'') \<and>
   map_option agent_status
     (view (getStatus ex_registry) (assign_begin 0 (ex_task ''t1'' None None) ex_registry)
        ''agent-0-k3j9x0abc'') = Some Busy"
proof -
  let ?E = "ex_env (\<lambda>n. Inr ''{}'')"
  let ?cfg = "ex_cfg 1000 3"
  let ?s' = "shutdown (snd (createAgent ''zzzzzzzzz'' ''Tester'' [''test''] ex_registry))"
  have r: "reachable ?E ?cfg ex_registry"
    by (rule ex_registry_reachable)
  have later: "steps ?E ?cfg ex_registry ?s'"
    using steps.after [OF steps.after [OF steps.here step.created] step.cleared] .
  have same: "steps ?E ?cfg ex_registry ex_registry"
    by (rule steps.here)
  have reg: "agents ex_registry ''agent-0-k3j9x0abc'' = Some 0 \<and>
             getStatus ex_registry ''agent-0-k3j9x0abc'' = Some 0"
    using ex_registry_agents by (simp add: getStatus_def)
  note 1 = C9_snapshot_is_shallow [OF r later, THEN conjunct1, of "''agent-0-k3j9x0abc''"]
  note 2 = C9_snapshot_is_shallow [OF r same, THEN conjunct2, rule_format, OF reg,
             of "ex_task ''t1'' None None", THEN conjunct1]
  show ?thesis
    using 1 2 by (intro conjI)
qed

section \<open>Claim C10: an empty prerequisite list\<close>

text \<open>
  C10 says that an empty prerequisite list resolves at once for every configuration.
  \<^verbatim>\<open>waitForDependencies\<close> tests the window before it looks at the list, so with
  \<^verbatim>\<open>timeout: 0\<close> the loop body never runs: the task below, whose list is \<^verbatim>\<open>[]\<close>, ends
  in a failure with the dependency-timeout message and its body is never called.
\<close>

theorem C10_empty_list_counterexample:
  "fst (executeTask (ex_env (\<lambda>n. Inr ''{}'')) (ex_cfg 0 3) (ex_task ''t1'' (Some []) None) (init 0))
     = Inr \<lparr>taskId = ''t1'', status = Failure, task_output = Null,
            error = Some ''Dependency timeout: Some dependencies did not complete in time'',
            metrics = Some \<lparr>duration = 0, tokensUsed = None, filesModified = None\<rparr>\<rparr> \<and>
   bodyCalls (snd (executeTask (ex_env (\<lambda>n. Inr ''{}'')) (ex_cfg 0 3) (ex_task ''t1'' (Some []) None)
                     (init 0))) = 0"
  by (simp add: executeTask_def executeTask_catch_def resolveDependencies_def waitForDependencies_def
        wait_loop.simps failure_def ex_cfg_def ex_task_def init_def Let_def)

text \<open>
  C10, amended: for every task whose prerequisite list is empty, the dependency wait
  resolves immediately (no sleep, no time passes, the state is unchanged) and the task
  proceeds directly to its body, for every configuration whose \<^verbatim>\<open>timeout\<close> is positive;
  when the task has no \<^verbatim>\<open>dependencies\<close> field at all, for every configuration.
\<close>

theorem C10_empty_list_resolves_immediately:
  assumes "dependencies task = None \<or> (dependencies task = Some [] \<and> 0 < timeout cfg)"
  shows "resolveDependencies E cfg task s = (Inr (), s) \<and>
         executeTask E cfg task s =
           (case processTask E task s of
              (Inl err, s2) \<Rightarrow> executeTask_catch E cfg task (now s) err s2
            | (Inr result, s2) \<Rightarrow> (Inr (success task result (now s2 - now s)), s2))"
proof -
  have r: "resolveDependencies E cfg task s = (Inr (), s)"
    using assms
    by (auto simp: resolveDependencies_def waitForDependencies_def wait_loop.simps [of E _ _ "[]"]
          allComplete_def)
  then show ?thesis
    by (simp add: executeTask_def Let_def)
qed

theorem C10_empty_list_resolves_immediately_witness:
  "resolveDependencies (ex_env (\<lambda>n. Inr ''{}'')) (ex_cfg 1000 3) (ex_task ''t1'' (Some []) None) (init 0)
     = (Inr (), init 0) \<and>
   fst (executeTask (ex_env (\<lambda>n. Inr ''{}'')) (ex_cfg 1000 3) (ex_task ''t1'' (Some []) None) (init 0))
     = Inr \<lparr>taskId = ''t1'', status = Success, task_output = Parsed (), error = None,
            metrics = Some \<lparr>duration = 10, tokensUsed = None, filesModified = None\<rparr>\<rparr>"
proof -
  have h: "dependencies (ex_task ''t1'' (Some []) None) = None \<or>
           (dependencies (ex_task ''t1'' (Some []) None) = Some [] \<and> 0 < timeout (ex_cfg 1000 3))"
    by (simp add: ex_task_def ex_cfg_def)
  have p: "processTask (ex_env (\<lambda>n. Inr ''{}'')) (ex_task ''t1'' (Some []) None) (init 0)
             = (Inr (Parsed ()), (init 0)\<lparr>taskResults := Map.empty, now := 10, chatCalls := 1, bodyCalls := 1\<rparr>)"
    by (simp add: processTask_def getUserPrompt_def parseTaskResult_def ex_env_def ex_task_def
          init_def Let_def)
  show ?thesis
    using C10_empty_list_resolves_immediately [OF h, of "ex_env (\<lambda>n. Inr ''{}'')" "init 0"]
    by (simp add: p success_def) (simp add: ex_task_def init_def)
qed

end
